theory Spec2Isabelle
  imports Complex_Main "HOL-Library.Sublist"
begin

section \<open>The simulation driver of atooms: data model\<close>

text \<open>
  The theory embeds \<^verbatim>\<open>atooms/simulation/core.py\<close>, the class \<^verbatim>\<open>Simulation\<close>.
  Python exceptions are values of \<open>exn\<close>; a call that may raise returns \<open>exn + 'a\<close>
  with \<open>Inl\<close> the raised exception. A method that mutates the object returns the
  outcome paired with the object as it is left, also when it raises.
\<close>

datatype exn =
    SimulationEnd
  | KeyboardInterrupt
  | AttributeError
  | KeyError
  | IndexError
  | ZeroDivisionError
  | OverflowError
  | Exception string

text \<open>
  A scheduler is an instance of the class \<^verbatim>\<open>Scheduler\<close>, built in the source as
  \<^verbatim>\<open>Scheduler(interval, calls=..., target=...)\<close>, or any other callable, which has
  no attributes \<^verbatim>\<open>interval\<close> and \<^verbatim>\<open>calls\<close>.
\<close>

datatype scheduler =
    Scheduler "int option" "int option" "int option"
  | Callable nat

text \<open>The second argument of \<^verbatim>\<open>add\<close>: an \<^verbatim>\<open>int\<close> or a scheduler.\<close>

datatype sched_arg = IntArg int | SchedArg scheduler

text \<open>
  An observer is a callable object: its identity, its \<^verbatim>\<open>__name__\<close> and whether it
  is an instance of \<^verbatim>\<open>Speedometer\<close>. Equality of observers is equality of these.
\<close>

datatype observer = Observer (ident: nat) (name: string) (is_speedometer: bool)

text \<open>The entry of \<^verbatim>\<open>_cbk_params\<close> for one observer.\<close>

record params =
  scheduler :: scheduler
  args :: "int list"
  kwargs :: "(string \<times> int) list"

datatype system = System (particle: "nat list")

text \<open>
  The attributes of the backend that the driver reads and writes. A backend without a
  \<^verbatim>\<open>system\<close> (no such attribute, or \<^verbatim>\<open>None\<close>) has \<open>backend_system = None\<close>.
\<close>

record backend =
  backend_steps :: int
  backend_output_path :: "string option"
  backend_system :: "system option"
  backend_version :: "string option"

text \<open>
  What the driver does that can be observed from outside, in order: the records it logs
  (by their format string), the observers and reset hooks it calls, the backend methods
  it calls, and the barrier.
\<close>

datatype event =
    Log_info string
  | Log_error string
  | Log_debug string
  | Call observer "int list" "(string \<times> int) list"
  | Clear observer
  | Backend_run_pre bool
  | Backend_run_until int
  | Backend_write_checkpoint
  | Barrier

text \<open>
  The instance. \<open>world\<close> is everything outside the driver and the backend's attributes
  above: the backend's internals, the observers' own attributes, the files. \<open>trace\<close>
  is the history of events. The fields \<^verbatim>\<open>_callback\<close>, \<^verbatim>\<open>_cbk_params\<close>,
  \<^verbatim>\<open>_checkpoint_scheduler\<close> and \<^verbatim>\<open>_targeter_steps\<close> lose their underscore.
\<close>

record 'w simulation =
  backend :: backend
  restart :: bool
  output_path :: "string option"
  max_steps :: int
  enable_speedometer :: bool
  checkpoint_scheduler :: scheduler
  targeter_steps :: observer
  cbk_params :: "observer \<rightharpoonup> params"
  callback :: "observer list"
  steps :: int
  initial_steps :: int
  start_time :: real
  speedometer :: "observer option"
  world :: 'w
  trace :: "event list"

section \<open>The callback registry\<close>

text \<open>\<^verbatim>\<open>str.lower\<close> on ASCII, and \<^verbatim>\<open>sub in s\<close>.\<close>

definition lower_char :: "char \<Rightarrow> char" where
  "lower_char c =
     (let n = (of_char c :: nat) in if 65 \<le> n \<and> n \<le> 90 then char_of (n + 32) else c)"

definition lower :: "string \<Rightarrow> string" where
  "lower s = map lower_char s"

fun contains :: "string \<Rightarrow> string \<Rightarrow> bool" where
  "contains sub [] = (sub = [])"
| "contains sub (c # cs) = (prefix sub (c # cs) \<or> contains sub cs)"

text \<open>\<^verbatim>\<open>'target' in callback.__name__.lower()\<close>\<close>

definition is_targeter :: "observer \<Rightarrow> bool" where
  "is_targeter c = contains ''target'' (lower (name c))"

definition log_event :: "event \<Rightarrow> 'w simulation \<Rightarrow> 'w simulation" where
  "log_event e s = s\<lparr>trace := trace s @ [e]\<rparr>"

definition log_events :: "event list \<Rightarrow> 'w simulation \<Rightarrow> 'w simulation" where
  "log_events es s = s\<lparr>trace := trace s @ es\<rparr>"

text \<open>
  \<^verbatim>\<open>add(callback, scheduler, *args, **kwargs)\<close>. \<^verbatim>\<open>list.remove\<close> deletes the first
  equal element, \<^verbatim>\<open>insert(0, x)\<close> puts \<open>x\<close> in front, \<^verbatim>\<open>append\<close> at the end.
\<close>

definition add ::
  "observer \<Rightarrow> sched_arg \<Rightarrow> int list \<Rightarrow> (string \<times> int) list \<Rightarrow> 'w simulation \<Rightarrow> 'w simulation"
where
  "add c sch as kws s =
     (let cbs = (if c \<in> set (callback s) then remove1 c (callback s) else callback s);
          sch' = (case sch of IntArg i \<Rightarrow> Scheduler (Some i) None None | SchedArg x \<Rightarrow> x);
          ps = (cbk_params s)(c \<mapsto> \<lparr>scheduler = sch', args = as, kwargs = kws\<rparr>)
      in s\<lparr>cbk_params := ps,
           callback := (if \<not> is_targeter c then c # cbs else cbs @ [c])\<rparr>)"

text \<open>
  \<^verbatim>\<open>remove(callback)\<close>. \<^verbatim>\<open>dict.pop\<close> raises \<^verbatim>\<open>KeyError\<close> on a missing key, after
  the list has been changed.
\<close>

definition remove :: "observer \<Rightarrow> 'w simulation \<Rightarrow> (exn + unit) \<times> 'w simulation" where
  "remove c s =
     (if c \<in> set (callback s) then
        (let s1 = s\<lparr>callback := remove1 c (callback s)\<rparr>
         in case cbk_params s1 c of
              None \<Rightarrow> (Inl KeyError, s1)
            | Some _ \<Rightarrow> (Inr (), s1\<lparr>cbk_params := (cbk_params s1)(c := None)\<rparr>))
      else (Inr (), log_event (Log_debug ''attempt to remove inexistent callback %s (dont worry)'') s))"

text \<open>The properties \<^verbatim>\<open>_targeters\<close>, \<^verbatim>\<open>_non_targeters\<close> and \<^verbatim>\<open>_speedometers\<close>.\<close>

definition targeters :: "'w simulation \<Rightarrow> observer list" where
  "targeters s = [c \<leftarrow> callback s. is_targeter c]"

definition non_targeters :: "'w simulation \<Rightarrow> observer list" where
  "non_targeters s = [c \<leftarrow> callback s. \<not> is_targeter c]"

definition speedometers :: "'w simulation \<Rightarrow> observer list" where
  "speedometers s = [c \<leftarrow> callback s. is_speedometer c]"

text \<open>
  Sequences of registry operations, as a client issues them on an instance. An
  exception of \<^verbatim>\<open>remove\<close> is caught by the client, the instance stays as it was left.
\<close>

datatype registry_op =
    Add observer sched_arg "int list" "(string \<times> int) list"
  | Remove observer

fun apply_op :: "registry_op \<Rightarrow> 'w simulation \<Rightarrow> 'w simulation" where
  "apply_op (Add c sch as kws) s = add c sch as kws s"
| "apply_op (Remove c) s = snd (remove c s)"

fun apply_ops :: "registry_op list \<Rightarrow> 'w simulation \<Rightarrow> 'w simulation" where
  "apply_ops [] s = s"
| "apply_ops (x # xs) s = apply_ops xs (apply_op x s)"

text \<open>
  The specification's insertion order of the registered observers: an \<^verbatim>\<open>add\<close>
  registers the observer last (a second \<^verbatim>\<open>add\<close> of the same observer registers it
  anew), a \<^verbatim>\<open>remove\<close> drops it. This definition follows the specification's words;
  the source keeps no such list.
\<close>

fun spec_insertion_order :: "observer list \<Rightarrow> registry_op list \<Rightarrow> observer list" where
  "spec_insertion_order acc [] = acc"
| "spec_insertion_order acc (Add c sch as kws # xs) =
     spec_insertion_order (removeAll c acc @ [c]) xs"
| "spec_insertion_order acc (Remove c # xs) = spec_insertion_order (removeAll c acc) xs"

section \<open>The environment\<close>

text \<open>
  The code the driver calls and that is not the driver's: the schedulers'
  \<^verbatim>\<open>__call__\<close>, the observers, their optional \<^verbatim>\<open>clear\<close> hook (\<open>None\<close> when the
  observer has no such attribute), the backend's methods and its \<^verbatim>\<open>rmsd\<close>, and the
  assignment \<^verbatim>\<open>s._init = False\<close> on a speedometer. A scheduler returns the next step
  (the contract of \<^verbatim>\<open>add\<close>). An observer or a hook reads the instance; a backend
  method reads the backend. Each may raise, and leaves the backend's attributes and the
  world as it likes; the driver's own fields are written by the driver only.
\<close>

type_synonym 'w effect = "(exn + unit) \<times> backend \<times> 'w"

record 'w env =
  scheduler_call :: "scheduler \<Rightarrow> 'w simulation \<Rightarrow> int"
  callback_call ::
    "observer \<Rightarrow> int list \<Rightarrow> (string \<times> int) list \<Rightarrow> 'w simulation \<Rightarrow> 'w effect"
  callback_clear :: "observer \<Rightarrow> ('w simulation \<Rightarrow> 'w effect) option"
  backend_run_pre :: "bool \<Rightarrow> backend \<Rightarrow> 'w \<Rightarrow> 'w effect"
  backend_run_until :: "int \<Rightarrow> backend \<Rightarrow> 'w \<Rightarrow> 'w effect"
  backend_write_checkpoint :: "backend \<Rightarrow> 'w \<Rightarrow> 'w effect"
  backend_rmsd :: "backend \<Rightarrow> 'w \<Rightarrow> exn + real"
  speedometer_reinit :: "observer \<Rightarrow> 'w \<Rightarrow> 'w"

text \<open>The instance after a call into the environment.\<close>

definition external :: "'w effect \<Rightarrow> 'w simulation \<Rightarrow> (exn + unit) \<times> 'w simulation" where
  "external r s = (case r of (x, b, w) \<Rightarrow> (x, s\<lparr>backend := b, world := w\<rparr>))"

section \<open>Construction\<close>

text \<open>
  \<^verbatim>\<open>target_steps\<close> is imported from \<^verbatim>\<open>observers\<close>; a function's \<^verbatim>\<open>__name__\<close> is
  the name it is defined under.
\<close>

definition target_steps :: observer where
  "target_steps = Observer 0 ''target_steps'' False"

text \<open>
  \<^verbatim>\<open>__init__\<close>. \<open>dry_run\<close> is the \<^verbatim>\<open>DryRunBackend()\<close> and \<open>spd\<close> the
  \<^verbatim>\<open>Speedometer()\<close> it would create, \<open>now\<close> the reading of \<^verbatim>\<open>time.time()\<close>. The
  directory made for the output path and the reference to the backend's trajectory are
  left out: the class never reads them.
\<close>

definition Simulation ::
  "backend \<Rightarrow> observer \<Rightarrow> real \<Rightarrow> 'w \<Rightarrow> backend option \<Rightarrow> string option \<Rightarrow> int \<Rightarrow> int
     \<Rightarrow> bool \<Rightarrow> bool \<Rightarrow> 'w simulation"
where
  "Simulation dry_run spd now w b out n checkpoint_interval enable re =
     (let s = \<lparr>backend = (case b of None \<Rightarrow> dry_run | Some x \<Rightarrow> x),
               restart = re,
               output_path = out,
               max_steps = n,
               enable_speedometer = enable,
               checkpoint_scheduler = Scheduler (Some checkpoint_interval) None None,
               targeter_steps = target_steps,
               cbk_params = Map.empty,
               callback = [],
               steps = 0,
               initial_steps = 0,
               start_time = now,
               speedometer = None,
               world = w,
               trace = []\<rparr>
      in if enable
         then add spd (SchedArg (Scheduler None (Some 20) (Some n))) [] []
                (s\<lparr>speedometer := Some spd\<rparr>)
         else s)"

section \<open>Notification, checkpoints, timing\<close>

text \<open>\<^verbatim>\<open>notify(observers)\<close>: the first observer that raises ends the batch.\<close>

fun notify :: "'w env \<Rightarrow> observer list \<Rightarrow> 'w simulation \<Rightarrow> (exn + unit) \<times> 'w simulation" where
  "notify env [] s = (Inr (), s)"
| "notify env (c # cs) s =
     (let s1 = log_event (Log_debug ''notify %s at step %d'') s
      in case cbk_params s1 c of
           None \<Rightarrow> (Inl KeyError, s1)
         | Some p \<Rightarrow>
             (case external (callback_call env c (args p) (kwargs p) s1)
                     (log_event (Call c (args p) (kwargs p)) s1) of
                (Inl e, s2) \<Rightarrow> (Inl e, s2)
              | (Inr u, s2) \<Rightarrow> notify env cs s2))"

text \<open>\<^verbatim>\<open>write_checkpoint()\<close>: a backend without the method raises \<^verbatim>\<open>AttributeError\<close>.\<close>

definition write_checkpoint :: "'w env \<Rightarrow> 'w simulation \<Rightarrow> (exn + unit) \<times> 'w simulation" where
  "write_checkpoint env s =
     (case external (backend_write_checkpoint env (backend s) (world s))
             (log_event Backend_write_checkpoint s) of
        (r, s1) \<Rightarrow> (if r = Inl AttributeError then Inr () else r, s1))"

text \<open>The property \<^verbatim>\<open>rmsd\<close>.\<close>

definition rmsd :: "'w env \<Rightarrow> 'w simulation \<Rightarrow> exn + real" where
  "rmsd env s =
     (case backend_rmsd env (backend s) (world s) of
        Inl e \<Rightarrow> (if e = AttributeError then Inr 0 else Inl e)
      | Inr x \<Rightarrow> Inr x)"

text \<open>
  Times are floats in the source and reals here; \<open>now\<close> is the reading of
  \<^verbatim>\<open>time.time()\<close>. Dividing a float by an \<^verbatim>\<open>int\<close> converts the \<^verbatim>\<open>int\<close> first,
  which raises \<^verbatim>\<open>OverflowError\<close> beyond the largest float, and then raises
  \<^verbatim>\<open>ZeroDivisionError\<close> on zero.
\<close>

definition elapsed_wall_time :: "real \<Rightarrow> 'w simulation \<Rightarrow> real" where
  "elapsed_wall_time now s = now - start_time s"

definition float_div_int :: "real \<Rightarrow> int \<Rightarrow> exn + real" where
  "float_div_int x n =
     (if 2 ^ 1024 - 2 ^ 970 \<le> \<bar>n\<bar> then Inl OverflowError
      else if n = 0 then Inl ZeroDivisionError
      else Inr (x / real_of_int n))"

definition wall_time_per_step :: "real \<Rightarrow> 'w simulation \<Rightarrow> exn + real" where
  "wall_time_per_step now s =
     float_div_int (elapsed_wall_time now s) (steps s - initial_steps s)"

text \<open>
  \<^verbatim>\<open>wall_time_per_step_particle()\<close>: the dividend is evaluated before the divisor,
  and only \<^verbatim>\<open>AttributeError\<close> is caught.
\<close>

definition wall_time_per_step_particle :: "real \<Rightarrow> 'w simulation \<Rightarrow> exn + real" where
  "wall_time_per_step_particle now s =
     (let r = (case wall_time_per_step now s of
                 Inl e \<Rightarrow> Inl e
               | Inr t \<Rightarrow>
                   (case backend_system (backend s) of
                      None \<Rightarrow> Inl AttributeError
                    | Some sy \<Rightarrow> float_div_int t (int (length (particle sy)))))
      in if r = Inl AttributeError then Inr 0 else r)"

section \<open>The run\<close>

text \<open>The loop of \<^verbatim>\<open>run_pre\<close> over the reset hooks.\<close>

fun clear_all :: "'w env \<Rightarrow> observer list \<Rightarrow> 'w simulation \<Rightarrow> (exn + unit) \<times> 'w simulation" where
  "clear_all env [] s = (Inr (), s)"
| "clear_all env (c # cs) s =
     (case callback_clear env c of
        None \<Rightarrow> clear_all env cs s
      | Some hook \<Rightarrow>
          (case external (hook s) (log_event (Clear c) s) of
             (r, s1) \<Rightarrow>
               if r = Inr () \<or> r = Inl AttributeError then clear_all env cs s1 else (r, s1)))"

text \<open>\<^verbatim>\<open>run_pre()\<close>, with \<open>now\<close> the reading of \<^verbatim>\<open>time.time()\<close>.\<close>

definition run_pre :: "'w env \<Rightarrow> real \<Rightarrow> 'w simulation \<Rightarrow> (exn + unit) \<times> 'w simulation" where
  "run_pre env now s =
     (let s1 = s\<lparr>start_time := now\<rparr>
      in case (case output_path s1 of
                 None \<Rightarrow> (Inr (), s1)
               | Some p \<Rightarrow>
                   (let s2 = s1\<lparr>backend := (backend s1)\<lparr>backend_output_path := Some p\<rparr>\<rparr>
                    in if \<not> restart s2 then clear_all env (callback s2) s2 else (Inr (), s2))) of
           (Inl e, s3) \<Rightarrow> (Inl e, s3)
         | (Inr u, s3) \<Rightarrow>
             (case external (backend_run_pre env (restart s3) (backend s3) (world s3))
                     (log_event (Backend_run_pre (restart s3)) s3) of
                (Inl e, s4) \<Rightarrow> (Inl e, s4)
              | (Inr u, s4) \<Rightarrow>
                  (Inr (), log_event Barrier
                     (if restart s4 then s4\<lparr>steps := backend_steps (backend s4)\<rparr> else s4))))"

text \<open>\<^verbatim>\<open>run_until(steps)\<close>\<close>

definition run_until :: "'w env \<Rightarrow> int \<Rightarrow> 'w simulation \<Rightarrow> (exn + unit) \<times> 'w simulation" where
  "run_until env n s =
     (case external (backend_run_until env n (backend s) (world s))
             (log_event (Backend_run_until n) s) of
        (Inl e, s1) \<Rightarrow> (Inl e, s1)
      | (Inr u, s1) \<Rightarrow>
          (Inr (), s1\<lparr>backend := (backend s1)\<lparr>backend_steps := n\<rparr>, steps := n\<rparr>))"

text \<open>\<^verbatim>\<open>report_header()\<close>: the version of the backend is logged when it has one.\<close>

definition report_header :: "'w simulation \<Rightarrow> 'w simulation" where
  "report_header s =
     log_events
       ([Log_info [], Log_info ''atooms simulation via %s backend'', Log_info [],
         Log_info ''atooms version: %s+%s (%s)'']
        @ (case backend_version (backend s) of
             None \<Rightarrow> []
           | Some v \<Rightarrow> [Log_info ''backend version: %s''])
        @ [Log_info ''simulation starts on: %s'', Log_info ''output path: %s'']) s"

text \<open>
  \<^verbatim>\<open>_report_observers()\<close>: \<^verbatim>\<open>args[0]\<close> raises \<^verbatim>\<open>IndexError\<close> on a targeter without
  arguments, \<^verbatim>\<open>s.interval\<close> raises \<^verbatim>\<open>AttributeError\<close> on a plain callable.
\<close>

fun report_observers :: "observer list \<Rightarrow> 'w simulation \<Rightarrow> (exn + unit) \<times> 'w simulation" where
  "report_observers [] s = (Inr (), s)"
| "report_observers (f # fs) s =
     (case cbk_params s f of
        None \<Rightarrow> (Inl KeyError, s)
      | Some p \<Rightarrow>
          if is_targeter f then
            (case args p of
               [] \<Rightarrow> (Inl IndexError, s)
             | a # as \<Rightarrow> report_observers fs (log_event (Log_info ''target %s: %s'') s))
          else
            (case scheduler p of
               Callable k \<Rightarrow> (Inl AttributeError, s)
             | Scheduler i c t \<Rightarrow>
                 report_observers fs
                   (log_event (Log_info ''writer %s: interval=%s calls=%s'') s)))"

text \<open>\<^verbatim>\<open>report()\<close>; \<^verbatim>\<open>_report()\<close> does nothing in this class.\<close>

definition report :: "'w simulation \<Rightarrow> (exn + unit) \<times> 'w simulation" where
  "report s = report_observers (callback s) s"

text \<open>\<^verbatim>\<open>_report_end()\<close>, with \<open>now\<close> the reading of \<^verbatim>\<open>time.time()\<close>.\<close>

definition report_end :: "'w env \<Rightarrow> real \<Rightarrow> 'w simulation \<Rightarrow> (exn + unit) \<times> 'w simulation" where
  "report_end env now s =
     (let s1 = log_events [Log_info ''simulation ended on: %s'', Log_info ''final steps: %d''] s
      in case rmsd env s1 of
           Inl e \<Rightarrow> (Inl e, s1)
         | Inr x \<Rightarrow>
             (let s2 = log_events [Log_info ''final rmsd: %.2f'', Log_info ''wall time [s]: %.1f''] s1
              in case wall_time_per_step_particle now s2 of
                   Inl e \<Rightarrow> (Inl e, s2)
                 | Inr t \<Rightarrow>
                     (Inr (), log_event (Log_info ''average TSP [s/step/particle]: %.2e'') s2)))"

text \<open>
  \<^verbatim>\<open>run(steps)\<close> up to the \<^verbatim>\<open>try\<close>. First the reset of the counters and of the
  target.
\<close>

definition run_reset :: "int option \<Rightarrow> 'w simulation \<Rightarrow> 'w simulation" where
  "run_reset n s =
     (if \<not> restart s \<or> steps s = 0 then
        (let s1 = (case n of None \<Rightarrow> s | Some k \<Rightarrow> s\<lparr>max_steps := k\<rparr>)
         in s1\<lparr>steps := 0, backend := (backend s1)\<lparr>backend_steps := 0\<rparr>\<rparr>)
      else s)"

definition run_prologue ::
  "'w env \<Rightarrow> real \<Rightarrow> int option \<Rightarrow> 'w simulation \<Rightarrow> (exn + unit) \<times> 'w simulation"
where
  "run_prologue env now n s =
     (let s1 = run_reset n s;
          s2 = add (targeter_steps s1) (SchedArg (Scheduler (Some (max_steps s1)) None None))
                 [max_steps s1] [] s1;
          s3 = report_header s2
      in case run_pre env now s3 of
           (Inl e, s4) \<Rightarrow> (Inl e, s4)
         | (Inr u, s4) \<Rightarrow>
             (case report (s4\<lparr>initial_steps := steps s4\<rparr>) of
                (Inl e, s5) \<Rightarrow> (Inl e, s5)
              | (Inr u, s5) \<Rightarrow>
                  (Inr (), s5\<lparr>world := fold (speedometer_reinit env) (speedometers s5) (world s5)\<rparr>)))"

text \<open>The notifications before the loop.\<close>

definition run_initial :: "'w env \<Rightarrow> 'w simulation \<Rightarrow> (exn + unit) \<times> 'w simulation" where
  "run_initial env s =
     (case notify env (targeters s) s of
        (Inl e, s1) \<Rightarrow> (Inl e, s1)
      | (Inr u, s1) \<Rightarrow>
          (case (if steps s1 = 0 then notify env (non_targeters s1) s1
                 else notify env (speedometers s1) s1) of
             (Inl e, s2) \<Rightarrow> (Inl e, s2)
           | (Inr u, s2) \<Rightarrow>
               (Inr (), log_events [Log_info ''starting at step: %d'', Log_info []] s2)))"

text \<open>
  One pass through the body of \<^verbatim>\<open>while True\<close>. \<open>all_steps\<close> is the list of the
  schedulers' answers, \<^verbatim>\<open>KeyError\<close> when an observer has no entry in \<^verbatim>\<open>_cbk_params\<close>.
\<close>

fun all_steps :: "'w env \<Rightarrow> observer list \<Rightarrow> 'w simulation \<Rightarrow> exn + int list" where
  "all_steps env [] s = Inr []"
| "all_steps env (c # cs) s =
     (case cbk_params s c of
        None \<Rightarrow> Inl KeyError
      | Some p \<Rightarrow>
          (case all_steps env cs s of
             Inl e \<Rightarrow> Inl e
           | Inr ns \<Rightarrow> Inr (scheduler_call env (scheduler p) s # ns)))"

definition next_step_ids :: "int list \<Rightarrow> int \<Rightarrow> nat list" where
  "next_step_ids ns next_step = [i \<leftarrow> [0..<length ns]. ns ! i = next_step]"

definition next_observers :: "observer list \<Rightarrow> nat list \<Rightarrow> exn + observer list" where
  "next_observers cbs ids =
     (if list_all (\<lambda>i. i < length cbs) ids then Inr (map (\<lambda>i. cbs ! i) ids) else Inl IndexError)"

definition loop_body :: "'w env \<Rightarrow> 'w simulation \<Rightarrow> (exn + unit) \<times> 'w simulation" where
  "loop_body env s =
     (case all_steps env (callback s) s of
        Inl e \<Rightarrow> (Inl e, s)
      | Inr ns \<Rightarrow>
          (let next_checkpoint = scheduler_call env (checkpoint_scheduler s) s;
               next_step = min_list (ns @ [next_checkpoint])
           in case run_until env next_step s of
                (Inl e, s1) \<Rightarrow> (Inl e, s1)
              | (Inr u, s1) \<Rightarrow>
                  (case next_observers (callback s1) (next_step_ids ns next_step) of
                     Inl e \<Rightarrow> (Inl e, s1)
                   | Inr obs \<Rightarrow>
                       (case notify env obs s1 of
                          (Inl e, s2) \<Rightarrow> (Inl e, s2)
                        | (Inr u, s2) \<Rightarrow>
                            if steps s2 = next_checkpoint then write_checkpoint env s2
                            else (Inr (), s2)))))"

text \<open>
  \<^verbatim>\<open>while True\<close> is left by an exception only; a loop that goes on forever is \<open>None\<close>.
\<close>

partial_function (option) main_loop :: "'w env \<Rightarrow> 'w simulation \<Rightarrow> (exn \<times> 'w simulation) option"
where
  "main_loop env s =
     (case loop_body env s of
        (Inl e, s1) \<Rightarrow> Some (e, s1)
      | (Inr u, s1) \<Rightarrow> main_loop env s1)"

declare main_loop.simps [code]

text \<open>The body of the \<^verbatim>\<open>try\<close>: the exception it ends with.\<close>

definition run_guarded :: "'w env \<Rightarrow> 'w simulation \<Rightarrow> (exn \<times> 'w simulation) option" where
  "run_guarded env s =
     (case run_initial env s of
        (Inl e, s1) \<Rightarrow> Some (e, s1)
      | (Inr u, s1) \<Rightarrow> main_loop env s1)"

text \<open>
  The \<^verbatim>\<open>except\<close> clauses and \<^verbatim>\<open>finally\<close>, on the exception \<open>e\<close> of the body; \<open>now\<close> is
  the reading of \<^verbatim>\<open>time.time()\<close> in the final report.
\<close>

definition run_handlers ::
  "'w env \<Rightarrow> real \<Rightarrow> exn \<Rightarrow> 'w simulation \<Rightarrow> (exn + unit) \<times> 'w simulation"
where
  "run_handlers env now e s =
     (if e = SimulationEnd then
        (case write_checkpoint env s of
           (Inl x, s1) \<Rightarrow> (Inl x, log_event (Log_info ''goodbye'') s1)
         | (Inr u, s1) \<Rightarrow> (Inr (), log_event (Log_info ''goodbye'') (snd (report_end env now s1))))
      else if e = KeyboardInterrupt then (Inr (), log_event (Log_info ''goodbye'') s)
      else (Inl e, log_event (Log_info ''goodbye'') (log_event (Log_error ''simulation failed'') s)))"

text \<open>
  \<^verbatim>\<open>run(steps)\<close>; \<open>t0\<close> and \<open>t1\<close> are the readings of \<^verbatim>\<open>time.time()\<close> in
  \<^verbatim>\<open>run_pre\<close> and in the final report.
\<close>

definition run ::
  "'w env \<Rightarrow> real \<Rightarrow> real \<Rightarrow> int option \<Rightarrow> 'w simulation \<Rightarrow> ((exn + unit) \<times> 'w simulation) option"
where
  "run env t0 t1 n s =
     (case run_prologue env t0 n s of
        (Inl e, s1) \<Rightarrow> Some (Inl e, s1)
      | (Inr u, s1) \<Rightarrow>
          (case run_guarded env s1 of
             None \<Rightarrow> None
           | Some (e, s2) \<Rightarrow> Some (run_handlers env t1 e s2)))"

section \<open>Notions of the specification\<close>

text \<open>
  The projections of a history of events that the statements below speak of: the
  observers whose reset hook was called, the observers that were called, the steps the
  backend was asked to advance to, and the number of checkpoints asked of the backend.
  \<open>new_events s s'\<close> are the events of \<open>s'\<close> after those of \<open>s\<close>.
\<close>

definition clears :: "event list \<Rightarrow> observer list" where
  "clears es = concat (map (\<lambda>e. case e of Clear c \<Rightarrow> [c] | _ \<Rightarrow> []) es)"

definition called :: "event list \<Rightarrow> observer list" where
  "called es = concat (map (\<lambda>e. case e of Call c as kws \<Rightarrow> [c] | _ \<Rightarrow> []) es)"

definition advances :: "event list \<Rightarrow> int list" where
  "advances es = concat (map (\<lambda>e. case e of Backend_run_until n \<Rightarrow> [n] | _ \<Rightarrow> []) es)"

definition checkpoints :: "event list \<Rightarrow> nat" where
  "checkpoints es = length (filter (\<lambda>e. e = Backend_write_checkpoint) es)"

definition new_events :: "'w simulation \<Rightarrow> 'w simulation \<Rightarrow> event list" where
  "new_events s s' = drop (length (trace s)) (trace s')"

text \<open>
  One pass of the main loop in the specification's words: the trigger of a registered
  observer is the answer of its scheduler, the next step (\<open>spec_next_step\<close>) is the
  minimum of the observers' triggers and of the checkpoint trigger, and the observers
  due (\<open>spec_due\<close>) are those whose trigger is that minimum. These two definitions
  follow the specification; the source computes the step with \<^verbatim>\<open>min\<close> over a list
  and the observers through indices into \<^verbatim>\<open>_callback\<close>, see \<open>loop_body\<close>.
\<close>

definition trigger :: "'w env \<Rightarrow> 'w simulation \<Rightarrow> observer \<Rightarrow> int" where
  "trigger env s c =
     (case cbk_params s c of None \<Rightarrow> 0 | Some p \<Rightarrow> scheduler_call env (scheduler p) s)"

definition next_checkpoint :: "'w env \<Rightarrow> 'w simulation \<Rightarrow> int" where
  "next_checkpoint env s = scheduler_call env (checkpoint_scheduler s) s"

definition spec_next_step :: "'w env \<Rightarrow> 'w simulation \<Rightarrow> int" where
  "spec_next_step env s = Min (trigger env s ` set (callback s) \<union> {next_checkpoint env s})"

definition spec_due :: "'w env \<Rightarrow> 'w simulation \<Rightarrow> observer list" where
  "spec_due env s = [c \<leftarrow> callback s. trigger env s c = spec_next_step env s]"

text \<open>A call of \<^verbatim>\<open>run\<close> that returns or raises, as opposed to one that goes on forever.\<close>

definition returned :: "((exn + unit) \<times> 'w simulation) option \<Rightarrow> bool" where
  "returned x = (case x of None \<Rightarrow> False | Some y \<Rightarrow> True)"

section \<open>Examples\<close>

text \<open>Concrete backends, observers and instances, for the examples below.\<close>

definition example_backend :: backend where
  "example_backend =
     \<lparr>backend_steps = 0, backend_output_path = None, backend_system = None,
      backend_version = None\<rparr>"

definition writer :: observer where
  "writer = Observer 1 ''write_thermo'' False"

definition plotter :: observer where
  "plotter = Observer 2 ''plot'' False"

definition target_rmsd :: observer where
  "target_rmsd = Observer 3 ''Target_RMSD'' False"

definition speedo :: observer where
  "speedo = Observer 4 ''speedometer'' True"

text \<open>
  \<^verbatim>\<open>Simulation(backend, 'out/trajectory.xyz', steps=10, checkpoint_interval=5)\<close>
\<close>

definition fresh :: "unit simulation" where
  "fresh =
     Simulation example_backend speedo 0 () (Some example_backend)
       (Some ''out/trajectory.xyz'') 10 5 False False"

definition two_adds :: "registry_op list" where
  "two_adds = [Add writer (IntArg 3) [] [], Add plotter (IntArg 4) [] []]"

definition six_ops :: "registry_op list" where
  "six_ops =
     two_adds @
     [Add target_rmsd (IntArg 7) [2] [], Add target_steps (IntArg 10) [10] [],
      Remove plotter, Add plotter (IntArg 1) [] []]"

text \<open>
  An environment: a scheduler with a positive interval answers the next multiple of it
  and any other never fires, \<^verbatim>\<open>target_steps\<close> raises the end of the run once the
  step count has reached its argument, \<^verbatim>\<open>write_thermo\<close> alone has a reset hook, and
  the backend has every method, each doing nothing, but no \<^verbatim>\<open>rmsd\<close>.
\<close>

definition example_env :: "unit env" where
  "example_env =
     \<lparr>scheduler_call = (\<lambda>sch s. case sch of
          Scheduler (Some i) c t \<Rightarrow> if 0 < i then (steps s div i + 1) * i else 10 ^ 9
        | _ \<Rightarrow> 10 ^ 9),
      callback_call = (\<lambda>c as kws s.
          (if c = target_steps \<and> (case as of [] \<Rightarrow> False | a # _ \<Rightarrow> a \<le> steps s)
           then Inl SimulationEnd else Inr (), backend s, world s)),
      callback_clear = (\<lambda>c. if c = writer then Some (\<lambda>s. (Inr (), backend s, world s)) else None),
      backend_run_pre = (\<lambda>r b w. (Inr (), b, w)),
      backend_run_until = (\<lambda>n b w. (Inr (), b, w)),
      backend_write_checkpoint = (\<lambda>b w. (Inr (), b, w)),
      backend_rmsd = (\<lambda>b w. Inl AttributeError),
      speedometer_reinit = (\<lambda>c w. w)\<rparr>"

text \<open>
  Instances: with one writer every 3 steps; with two observers that share an interval
  with the checkpoints; resumed at step 7; asked to restart before any step; without an
  output path; after 10 steps.
\<close>

definition ready :: "unit simulation" where
  "ready = add writer (IntArg 3) [] [] fresh"

definition tied :: "unit simulation" where
  "tied =
     apply_ops [Add writer (IntArg 5) [] [], Add plotter (IntArg 5) [] [],
                Add target_steps (IntArg 10) [10] []] fresh"

definition resumed :: "unit simulation" where
  "resumed =
     (add speedo (SchedArg (Scheduler None (Some 20) (Some 10))) [] [] ready)
       \<lparr>restart := True, steps := 7, backend := example_backend\<lparr>backend_steps := 7\<rparr>\<rparr>"

definition restarted :: "unit simulation" where
  "restarted = ready\<lparr>restart := True\<rparr>"

definition quiet :: "unit simulation" where
  "quiet = ready\<lparr>output_path := None\<rparr>"

definition ran :: "unit simulation" where
  "ran = ready\<lparr>steps := 10\<rparr>"

text \<open>
  Environments that fail: the checkpoint cannot be written from step 10 on, the backend
  cannot restart, the user interrupts after step 4, the backend fails after step 4.
\<close>

definition disk_full_env :: "unit env" where
  "disk_full_env =
     example_env\<lparr>backend_write_checkpoint :=
       (\<lambda>b w. (if 10 \<le> backend_steps b then Inl (Exception ''IOError'') else Inr (), b, w))\<rparr>"

definition broken_restart_env :: "unit env" where
  "broken_restart_env =
     example_env\<lparr>backend_run_pre := (\<lambda>r b w. (Inl (Exception ''OSError''), b, w))\<rparr>"

definition interrupted_env :: "unit env" where
  "interrupted_env =
     example_env\<lparr>backend_run_until :=
       (\<lambda>n b w. (if 4 < n then Inl KeyboardInterrupt else Inr (), b, w))\<rparr>"

definition crashing_env :: "unit env" where
  "crashing_env =
     example_env\<lparr>backend_run_until :=
       (\<lambda>n b w. (if 4 < n then Inl (Exception ''RuntimeError'') else Inr (), b, w))\<rparr>"

text \<open>
  An environment in which \<^verbatim>\<open>Target_RMSD\<close> too raises the end of the run once the step
  count has reached its argument, and an instance at step 5 on which the writer and two
  targeters are all due at step 10; the instance \<^verbatim>\<open>tied\<close> at step 5, where its three
  observers and the checkpoint are all due at step 10; an environment in which the user
  interrupts while \<^verbatim>\<open>write_thermo\<close> is running, from step 5 on.
\<close>

definition rmsd_reached_env :: "unit env" where
  "rmsd_reached_env =
     example_env\<lparr>callback_call := (\<lambda>c as kws s.
       (if (c = target_rmsd \<or> c = target_steps) \<and> (case as of [] \<Rightarrow> False | a # _ \<Rightarrow> a \<le> steps s)
        then Inl SimulationEnd else Inr (), backend s, world s))\<rparr>"

definition two_targets :: "unit simulation" where
  "two_targets =
     (apply_ops [Add writer (IntArg 5) [] [], Add target_rmsd (IntArg 10) [10] [],
                 Add target_steps (IntArg 10) [10] []] fresh)
       \<lparr>steps := 5, backend := example_backend\<lparr>backend_steps := 5\<rparr>\<rparr>"

definition tied_at_5 :: "unit simulation" where
  "tied_at_5 = tied\<lparr>steps := 5, backend := example_backend\<lparr>backend_steps := 5\<rparr>\<rparr>"

definition interrupting_env :: "unit env" where
  "interrupting_env =
     example_env\<lparr>callback_call := (\<lambda>c as kws s.
       (if c = writer \<and> 5 \<le> steps s then Inl KeyboardInterrupt else Inr (), backend s, world s))\<rparr>"

text \<open>A backend that finds a checkpoint written at step 7 when it is asked to restart.\<close>

definition restoring_env :: "unit env" where
  "restoring_env =
     example_env\<lparr>backend_run_pre :=
       (\<lambda>r b w. (Inr (), if r then b\<lparr>backend_steps := 7\<rparr> else b, w))\<rparr>"

section \<open>Invariants\<close>

text \<open>
  The invariant of the registry, against a list \<open>acc\<close> of the registered observers in
  the order of their registration.
\<close>

definition registry_ok :: "observer list \<Rightarrow> 'w simulation \<Rightarrow> bool" where
  "registry_ok acc s \<longleftrightarrow>
     distinct acc \<and>
     callback s = rev [x \<leftarrow> acc. \<not> is_targeter x] @ [x \<leftarrow> acc. is_targeter x]"

text \<open>
  What the calls into the environment leave alone (\<open>kept\<close>), what logging leaves
  alone (\<open>same_but_trace\<close>), and the kinds of events a notification and a report
  produce.
\<close>

definition kept :: "'w simulation \<Rightarrow> 'w simulation \<Rightarrow> bool" where
  "kept s s' \<longleftrightarrow>
     restart s' = restart s \<and> output_path s' = output_path s \<and> max_steps s' = max_steps s \<and>
     checkpoint_scheduler s' = checkpoint_scheduler s \<and> cbk_params s' = cbk_params s \<and>
     callback s' = callback s \<and> initial_steps s' = initial_steps s"

definition same_but_trace :: "'w simulation \<Rightarrow> 'w simulation \<Rightarrow> bool" where
  "same_but_trace s s' \<longleftrightarrow> kept s s' \<and> steps s' = steps s \<and> backend s' = backend s \<and> world s' = world s"

definition notify_event :: "event \<Rightarrow> bool" where
  "notify_event e = (case e of Log_debug m \<Rightarrow> True | Call c as kws \<Rightarrow> True | _ \<Rightarrow> False)"

definition log_record :: "event \<Rightarrow> bool" where
  "log_record e =
     (case e of Log_info m \<Rightarrow> True | Log_error m \<Rightarrow> True | Log_debug m \<Rightarrow> True | _ \<Rightarrow> False)"

text \<open>
  Parts of \<^verbatim>\<open>run_pre\<close> and \<^verbatim>\<open>run\<close> named for the proofs: the start of
  \<^verbatim>\<open>run_pre\<close> up to the reset hooks, the hooks it is expected to call, and the
  instance after \<^verbatim>\<open>run\<close> has registered the step targeter.
\<close>

definition clearing :: "'w env \<Rightarrow> real \<Rightarrow> 'w simulation \<Rightarrow> (exn + unit) \<times> 'w simulation" where
  "clearing env now s =
     (let s1 = s\<lparr>start_time := now\<rparr>
      in case output_path s1 of
           None \<Rightarrow> (Inr (), s1)
         | Some p \<Rightarrow>
             (let s2 = s1\<lparr>backend := (backend s1)\<lparr>backend_output_path := Some p\<rparr>\<rparr>
              in if \<not> restart s2 then clear_all env (callback s2) s2 else (Inr (), s2)))"

definition expected_clears :: "'w env \<Rightarrow> 'w simulation \<Rightarrow> observer list" where
  "expected_clears env s =
     (if output_path s \<noteq> None \<and> \<not> restart s
      then [c \<leftarrow> callback s. callback_clear env c \<noteq> None] else [])"

definition run_added :: "int option \<Rightarrow> 'w simulation \<Rightarrow> 'w simulation" where
  "run_added n s =
     add (targeter_steps (run_reset n s))
       (SchedArg (Scheduler (Some (max_steps (run_reset n s))) None None))
       [max_steps (run_reset n s)] [] (run_reset n s)"

section \<open>Events and frames\<close>

lemma called_append [simp]: "called (xs @ ys) = called xs @ called ys"
  by (simp add: called_def)

lemma clears_append [simp]: "clears (xs @ ys) = clears xs @ clears ys"
  by (simp add: clears_def)

lemma advances_append [simp]: "advances (xs @ ys) = advances xs @ advances ys"
  by (simp add: advances_def)

lemma checkpoints_append [simp]: "checkpoints (xs @ ys) = checkpoints xs + checkpoints ys"
  by (simp add: checkpoints_def)

lemma called_Nil [simp]: "called [] = []"
  by (simp add: called_def)

lemma clears_Nil [simp]: "clears [] = []"
  by (simp add: clears_def)

lemma advances_Nil [simp]: "advances [] = []"
  by (simp add: advances_def)

lemma checkpoints_Nil [simp]: "checkpoints [] = 0"
  by (simp add: checkpoints_def)

lemma called_Cons: "called (e # es) = (case e of Call c as kws \<Rightarrow> [c] | _ \<Rightarrow> []) @ called es"
  by (simp add: called_def)

lemma clears_Cons: "clears (e # es) = (case e of Clear c \<Rightarrow> [c] | _ \<Rightarrow> []) @ clears es"
  by (simp add: clears_def)

lemma advances_Cons: "advances (e # es) = (case e of Backend_run_until n \<Rightarrow> [n] | _ \<Rightarrow> []) @ advances es"
  by (simp add: advances_def)

lemma checkpoints_Cons: "checkpoints (e # es) = (if e = Backend_write_checkpoint then 1 else 0) + checkpoints es"
  by (simp add: checkpoints_def)

lemma new_events_append: "trace s' = trace s @ es \<Longrightarrow> new_events s s' = es"
  by (simp add: new_events_def)

lemma notify_events_project:
  "list_all notify_event es \<Longrightarrow>
     advances es = [] \<and> clears es = [] \<and> checkpoints es = 0 \<and> Backend_write_checkpoint \<notin> set es"
  by (induction es)
     (auto simp: notify_event_def advances_Cons clears_Cons checkpoints_Cons split: event.splits)

lemma log_records_project:
  "list_all log_record es \<Longrightarrow>
     called es = [] \<and> clears es = [] \<and> checkpoints es = 0 \<and> advances es = []"
  by (induction es)
     (auto simp: log_record_def called_Cons clears_Cons checkpoints_Cons advances_Cons
        split: event.splits)

lemma map_Clear_project:
  "called (map Clear xs) = [] \<and> checkpoints (map Clear xs) = 0 \<and> advances (map Clear xs) = [] \<and>
   clears (map Clear xs) = xs"
  by (induction xs) (simp_all add: called_Cons checkpoints_Cons advances_Cons clears_Cons)

lemma kept_refl [simp]: "kept s s"
  by (simp add: kept_def)

lemma kept_trans: "kept s s' \<Longrightarrow> kept s' s'' \<Longrightarrow> kept s s''"
  by (simp add: kept_def)

lemma kept_log_event [simp]: "kept s (log_event e s)"
  by (simp add: kept_def log_event_def)

lemma kept_log_events [simp]: "kept s (log_events es s)"
  by (simp add: kept_def log_events_def)

lemma external_shape:
  "external r s = (fst r, s\<lparr>backend := fst (snd r), world := snd (snd r)\<rparr>)"
  by (cases r) (simp add: external_def)

lemma returned_Some: "returned x \<Longrightarrow> x = Some (fst (the x), snd (the x))"
  by (cases x) (simp_all add: returned_def)

section \<open>The registry\<close>

lemma remove1_registry:
  assumes "distinct acc"
  shows "remove1 c (rev [x \<leftarrow> acc. \<not> is_targeter x] @ [x \<leftarrow> acc. is_targeter x])
       = rev [x \<leftarrow> removeAll c acc. \<not> is_targeter x] @ [x \<leftarrow> removeAll c acc. is_targeter x]"
proof -
  have d: "distinct (rev [x \<leftarrow> acc. \<not> is_targeter x] @ [x \<leftarrow> acc. is_targeter x])"
    using assms by auto
  show ?thesis
    unfolding distinct_remove1_removeAll[OF d]
    by (simp add: removeAll_filter_not_eq rev_filter conj_commute)
qed

lemma registry_ok_add:
  assumes "registry_ok acc s"
  shows "registry_ok (removeAll c acc @ [c]) (add c sch as kws s)"
proof -
  have r: "remove1 c (callback s)
         = rev [x \<leftarrow> removeAll c acc. \<not> is_targeter x] @ [x \<leftarrow> removeAll c acc. is_targeter x]"
    using assms remove1_registry unfolding registry_ok_def by metis
  have "(if c \<in> set (callback s) then remove1 c (callback s) else callback s)
      = remove1 c (callback s)"
    by (simp add: remove1_idem)
  then show ?thesis
    using assms r unfolding registry_ok_def add_def by (simp add: Let_def distinct_removeAll)
qed

lemma registry_ok_remove:
  assumes "registry_ok acc s"
  shows "registry_ok (removeAll c acc) (snd (remove c s))"
proof -
  have r: "remove1 c (callback s)
         = rev [x \<leftarrow> removeAll c acc. \<not> is_targeter x] @ [x \<leftarrow> removeAll c acc. is_targeter x]"
    using assms remove1_registry unfolding registry_ok_def by metis
  show ?thesis
  proof (cases "c \<in> set (callback s)")
    case True
    then show ?thesis
      using assms r unfolding registry_ok_def remove_def
      by (simp add: Let_def distinct_removeAll split: option.splits)
  next
    case False
    then have "remove1 c (callback s) = callback s"
      by (simp add: remove1_idem)
    with False show ?thesis
      using assms r unfolding registry_ok_def remove_def
      by (simp add: Let_def distinct_removeAll log_event_def)
  qed
qed

lemma registry_ok_apply_ops:
  "registry_ok acc s \<Longrightarrow> registry_ok (spec_insertion_order acc ops) (apply_ops ops s)"
proof (induction ops arbitrary: acc s)
  case Nil
  then show ?case by simp
next
  case (Cons x xs)
  then show ?case
    by (cases x) (simp_all add: registry_ok_add registry_ok_remove)
qed

lemma registry_ok_distinct: "registry_ok acc s \<Longrightarrow> distinct (callback s)"
  by (auto simp: registry_ok_def)

lemma add_keeps_params:
  "set (callback s) \<subseteq> dom (cbk_params s) \<Longrightarrow>
     set (callback (add c sch as kws s)) \<subseteq> dom (cbk_params (add c sch as kws s))"
  using set_remove1_subset[of c "callback s"] by (auto simp: add_def Let_def)

lemma remove_keeps_params:
  assumes "distinct (callback s)" and "set (callback s) \<subseteq> dom (cbk_params s)"
  shows "set (callback (snd (remove c s))) \<subseteq> dom (cbk_params (snd (remove c s)))"
    and "fst (remove c s) = Inr ()"
  using assms by (auto simp: remove_def Let_def log_event_def split: option.splits)

lemma registered_have_params:
  assumes "callback s = []"
  shows "set (callback (apply_ops ops s)) \<subseteq> dom (cbk_params (apply_ops ops s))"
proof -
  have "registry_ok acc s \<Longrightarrow> set (callback s) \<subseteq> dom (cbk_params s) \<Longrightarrow>
      set (callback (apply_ops ops s)) \<subseteq> dom (cbk_params (apply_ops ops s))" for acc and s :: "'a simulation"
  proof (induction ops arbitrary: acc s)
    case Nil
    then show ?case by simp
  next
    case (Cons x xs)
    show ?case
    proof (cases x)
      case (Add c sch as kws)
      then show ?thesis
        using Cons.IH[OF registry_ok_add[OF Cons.prems(1)] add_keeps_params[OF Cons.prems(2)]]
        by simp
    next
      case (Remove c)
      then show ?thesis
        using Cons.IH[OF registry_ok_remove[OF Cons.prems(1)]
            remove_keeps_params(1)[OF registry_ok_distinct[OF Cons.prems(1)] Cons.prems(2)]]
        by simp
    qed
  qed
  moreover have "registry_ok [] s"
    using assms by (simp add: registry_ok_def)
  ultimately show ?thesis
    using assms by simp
qed

lemma kept_keeps_params:
  "kept s s' \<Longrightarrow> set (callback s) \<subseteq> dom (cbk_params s) \<Longrightarrow>
     set (callback s') \<subseteq> dom (cbk_params s')"
  by (simp add: kept_def)

text \<open>
  C1, as the specification has it: after any sequence of \<^verbatim>\<open>add\<close> and \<^verbatim>\<open>remove\<close> the
  ordinary observers come before the targeters, each group in insertion order. The
  source inserts an ordinary observer at the front of the list, so the ordinary
  observers are notified latest first: after \<^verbatim>\<open>add(write_thermo, 3)\<close> and
  \<^verbatim>\<open>add(plot, 4)\<close> the order is \<^verbatim>\<open>plot\<close>, \<^verbatim>\<open>write_thermo\<close>.
\<close>

theorem registry_insertion_order_counterexample:
  "non_targeters (apply_ops two_adds fresh) = [plotter, writer] \<and>
   [c \<leftarrow> spec_insertion_order [] two_adds. \<not> is_targeter c] = [writer, plotter] \<and>
   non_targeters (apply_ops two_adds fresh)
     \<noteq> [c \<leftarrow> spec_insertion_order [] two_adds. \<not> is_targeter c]"
  by code_simp

text \<open>
  C1, amended: after any sequence of \<^verbatim>\<open>add\<close> and \<^verbatim>\<open>remove\<close> on a registry that
  starts empty, the notification order is the ordinary observers followed by the
  targeters; the targeters are in insertion order and the ordinary observers in the
  reverse of their insertion order.
\<close>

theorem registry_order:
  assumes "callback s = []"
  shows "callback (apply_ops ops s) = non_targeters (apply_ops ops s) @ targeters (apply_ops ops s)
       \<and> non_targeters (apply_ops ops s) = rev [c \<leftarrow> spec_insertion_order [] ops. \<not> is_targeter c]
       \<and> targeters (apply_ops ops s) = [c \<leftarrow> spec_insertion_order [] ops. is_targeter c]"
proof -
  have "registry_ok [] s"
    using assms by (simp add: registry_ok_def)
  then have "registry_ok (spec_insertion_order [] ops) (apply_ops ops s)"
    by (rule registry_ok_apply_ops)
  then show ?thesis
    unfolding registry_ok_def non_targeters_def targeters_def
    by (simp add: rev_filter[symmetric] del: rev_filter)
qed

theorem registry_order_witness:
  "callback fresh = [] \<and>
   callback (apply_ops six_ops fresh) = [plotter, writer, target_rmsd, target_steps]"
proof -
  have h: "callback fresh = []"
    by code_simp
  have o: "rev [c \<leftarrow> spec_insertion_order [] six_ops. \<not> is_targeter c] = [plotter, writer]"
    by code_simp
  have t: "[c \<leftarrow> spec_insertion_order [] six_ops. is_targeter c] = [target_rmsd, target_steps]"
    by code_simp
  show ?thesis
    using h o t registry_order [OF h, of six_ops] by simp
qed

text \<open>
  C7: an \<^verbatim>\<open>add\<close> of an observer that is already registered leaves it exactly once in
  the notification order, stores the scheduler and the arguments of this \<^verbatim>\<open>add\<close> (an
  \<^verbatim>\<open>int\<close> as the scheduler of that interval), and places it anew: an ordinary observer
  first, a targeter last, the others in the order they had. The registry is any that
  \<^verbatim>\<open>add\<close> and \<^verbatim>\<open>remove\<close> build from the empty one.
\<close>

theorem add_replaces:
  assumes "callback s0 = []" and "c \<in> set (callback (apply_ops ops s0))"
  shows "count_list (callback (add c sch as kws (apply_ops ops s0))) c = 1 \<and>
         cbk_params (add c sch as kws (apply_ops ops s0)) c =
           Some \<lparr>scheduler = (case sch of IntArg i \<Rightarrow> Scheduler (Some i) None None | SchedArg x \<Rightarrow> x),
                 args = as, kwargs = kws\<rparr> \<and>
         callback (add c sch as kws (apply_ops ops s0)) =
           (if is_targeter c then [x \<leftarrow> callback (apply_ops ops s0). x \<noteq> c] @ [c]
            else c # [x \<leftarrow> callback (apply_ops ops s0). x \<noteq> c])"
proof -
  define s where "s = apply_ops ops s0"
  have "registry_ok [] s0"
    using assms(1) by (simp add: registry_ok_def)
  then have "registry_ok (spec_insertion_order [] ops) s"
    unfolding s_def by (rule registry_ok_apply_ops)
  then have d: "distinct (callback s)"
    by (rule registry_ok_distinct)
  have r: "remove1 c (callback s) = [x \<leftarrow> callback s. x \<noteq> c]"
    using d by (simp add: distinct_remove1_removeAll removeAll_filter_not_eq eq_commute)
  have cb: "callback (add c sch as kws s) =
      (if is_targeter c then [x \<leftarrow> callback s. x \<noteq> c] @ [c] else c # [x \<leftarrow> callback s. x \<noteq> c])"
    using assms(2) r unfolding s_def[symmetric] by (simp add: add_def Let_def)
  have "count_list [x \<leftarrow> callback s. x \<noteq> c] c = 0"
    by (simp add: count_list_0_iff)
  then have cnt: "count_list (callback (add c sch as kws s)) c = 1"
    unfolding cb by simp
  have p: "cbk_params (add c sch as kws s) c =
      Some \<lparr>scheduler = (case sch of IntArg i \<Rightarrow> Scheduler (Some i) None None | SchedArg x \<Rightarrow> x),
            args = as, kwargs = kws\<rparr>"
    by (simp add: add_def Let_def)
  show ?thesis
    unfolding s_def[symmetric] using cnt p cb by simp
qed

theorem add_replaces_witness:
  "callback fresh = [] \<and> writer \<in> set (callback (apply_ops six_ops fresh)) \<and>
   count_list (callback (add writer (IntArg 2) [4] [] (apply_ops six_ops fresh))) writer = 1 \<and>
   cbk_params (add writer (IntArg 2) [4] [] (apply_ops six_ops fresh)) writer
     = Some \<lparr>scheduler = Scheduler (Some 2) None None, args = [4], kwargs = []\<rparr> \<and>
   callback (add writer (IntArg 2) [4] [] (apply_ops six_ops fresh))
     = [writer, plotter, target_rmsd, target_steps] \<and>
   callback (add target_rmsd (SchedArg (Callable 0)) [] [] (apply_ops six_ops fresh))
     = [plotter, writer, target_steps, target_rmsd]"
proof -
  have h: "callback fresh = []"
    by code_simp
  have cb: "callback (apply_ops six_ops fresh) = [plotter, writer, target_rmsd, target_steps]"
    by code_simp
  have m: "writer \<in> set (callback (apply_ops six_ops fresh))"
    "target_rmsd \<in> set (callback (apply_ops six_ops fresh))"
    unfolding cb by simp_all
  have t: "\<not> is_targeter writer" "is_targeter target_rmsd"
    by code_simp+
  show ?thesis
    using h m t add_replaces [OF h m(1), of "IntArg 2" "[4]" "[]"]
      add_replaces [OF h m(2), of "SchedArg (Callable 0)" "[]" "[]"]
    unfolding cb by (simp add: plotter_def writer_def target_rmsd_def target_steps_def)
qed

section \<open>Timing\<close>

text \<open>
  C3, as the specification has it: without a system, \<^verbatim>\<open>wall_time_per_step_particle\<close>
  returns 0 whatever the step counters are. The time per step is computed first, and
  on an instance that has made no step since the run began it divides by zero: that
  \<^verbatim>\<open>ZeroDivisionError\<close> is not caught.
\<close>

theorem wall_time_counterexample:
  "backend_system (backend fresh) = None \<and> steps fresh = 0 \<and> initial_steps fresh = 0 \<and>
   wall_time_per_step_particle 1 fresh = Inl ZeroDivisionError"
  by code_simp

text \<open>
  C3, amended: without a system, \<^verbatim>\<open>wall_time_per_step_particle\<close> returns 0 and
  raises nothing when the current and the initial step count differ (by less than the
  largest float, else the conversion raises \<^verbatim>\<open>OverflowError\<close>), and raises
  \<^verbatim>\<open>ZeroDivisionError\<close> when they are equal.
\<close>

theorem wall_time_without_system:
  assumes "backend_system (backend s) = None"
  shows "wall_time_per_step_particle now s =
           (if steps s = initial_steps s then Inl ZeroDivisionError
            else if 2 ^ 1024 - 2 ^ 970 \<le> \<bar>steps s - initial_steps s\<bar> then Inl OverflowError
            else Inr 0)"
  using assms
  by (simp add: wall_time_per_step_particle_def wall_time_per_step_def float_div_int_def Let_def)

theorem wall_time_without_system_witness:
  "backend_system (backend ran) = None \<and> steps ran = 10 \<and> initial_steps ran = 0 \<and>
   wall_time_per_step_particle 1 ran = Inr 0"
proof -
  have h: "backend_system (backend ran) = None"
    by code_simp
  have f: "steps ran = 10" "initial_steps ran = 0"
    by code_simp+
  show ?thesis
    using h f wall_time_without_system [OF h, of 1] by simp
qed

section \<open>Notification and the parts of a run\<close>

lemma notify_shape:
  "\<exists>es. trace (snd (notify env cs s)) = trace s @ es \<and> list_all notify_event es \<and>
        prefix (called es) cs \<and> (fst (notify env cs s) = Inr () \<longrightarrow> called es = cs) \<and>
        kept s (snd (notify env cs s)) \<and> steps (snd (notify env cs s)) = steps s"
proof (induction cs arbitrary: s)
  case Nil
  then show ?case by simp
next
  case (Cons c cs)
  show ?case
  proof (cases "cbk_params s c")
    case None
    then show ?thesis
      by (simp add: log_event_def notify_event_def called_Cons Let_def kept_def)
  next
    case (Some p)
    define s1 where "s1 = log_event (Log_debug ''notify %s at step %d'') s"
    define r where "r = callback_call env c (args p) (kwargs p) s1"
    define s2 where
      "s2 = (log_event (Call c (args p) (kwargs p)) s1)\<lparr>backend := fst (snd r), world := snd (snd r)\<rparr>"
    define pre where "pre = [Log_debug ''notify %s at step %d'', Call c (args p) (kwargs p)]"
    have t2: "trace s2 = trace s @ pre"
      by (simp add: s2_def s1_def pre_def log_event_def)
    have k2: "kept s s2" "steps s2 = steps s"
      by (simp_all add: s2_def s1_def kept_def log_event_def)
    have p1: "cbk_params s1 c = Some p"
      using Some by (simp add: s1_def log_event_def)
    have unf: "notify env (c # cs) s =
      (case fst r of Inl e \<Rightarrow> (Inl e, s2) | Inr u \<Rightarrow> notify env cs s2)"
      using p1 unfolding notify.simps s1_def[symmetric] Let_def
      by (simp add: external_shape r_def s2_def split: sum.splits)
    show ?thesis
    proof (cases "fst r")
      case (Inl e)
      then have "notify env (c # cs) s = (Inl e, s2)"
        by (simp add: unf del: notify.simps)
      then show ?thesis
        using t2 k2 by (simp add: notify_event_def called_Cons pre_def)
    next
      case (Inr u)
      then have n: "notify env (c # cs) s = notify env cs s2"
        by (simp add: unf del: notify.simps)
      from Cons.IH[of s2] obtain es where
        es: "trace (snd (notify env cs s2)) = trace s2 @ es" "list_all notify_event es"
          "prefix (called es) cs" "fst (notify env cs s2) = Inr () \<longrightarrow> called es = cs"
          "kept s2 (snd (notify env cs s2))" "steps (snd (notify env cs s2)) = steps s2"
        by blast
      have a: "trace (snd (notify env (c # cs) s)) = trace s @ (pre @ es)"
        unfolding n using es(1) t2 by simp
      have b: "list_all notify_event (pre @ es)"
        using es(2) by (simp add: notify_event_def pre_def)
      have c: "called (pre @ es) = c # called es"
        by (simp add: called_Cons pre_def)
      have d: "kept s (snd (notify env (c # cs) s))"
        unfolding n by (rule kept_trans[OF k2(1) es(5)])
      have e: "steps (snd (notify env (c # cs) s)) = steps s"
        unfolding n using es(6) k2(2) by simp
      have f: "prefix (called (pre @ es)) (c # cs)"
        unfolding c using es(3) by simp
      have g: "fst (notify env (c # cs) s) = Inr () \<longrightarrow> called (pre @ es) = c # cs"
        unfolding n c using es(4) by simp
      show ?thesis
        using a b d e f g by blast
    qed
  qed
qed

lemma notify_Cons_returns:
  assumes "cbk_params s c = Some p"
    and "fst (callback_call env c (args p) (kwargs p) (log_event (Log_debug ''notify %s at step %d'') s)) = Inr ()"
  shows "notify env (c # cs) s
     = notify env cs (snd (external (callback_call env c (args p) (kwargs p)
           (log_event (Log_debug ''notify %s at step %d'') s))
         (log_event (Call c (args p) (kwargs p)) (log_event (Log_debug ''notify %s at step %d'') s))))"
  using assms by (simp add: Let_def log_event_def external_shape)

lemma notify_Cons_raises:
  assumes "cbk_params s c = Some p"
    and "fst (callback_call env c (args p) (kwargs p) (log_event (Log_debug ''notify %s at step %d'') s)) = Inl e"
  shows "fst (notify env (c # cs) s) = Inl e \<and>
         called (new_events s (snd (notify env (c # cs) s))) = [c]"
  using assms
  by (simp add: Let_def log_event_def external_shape new_events_def called_Cons called_Nil)

lemma notify_raises:
  assumes "set cs \<subseteq> dom (cbk_params s)" and "fst (notify env cs s) = Inl e"
  shows "\<exists>pre c post p. cs = pre @ c # post \<and> fst (notify env pre s) = Inr () \<and>
     cbk_params s c = Some p \<and>
     fst (callback_call env c (args p) (kwargs p)
            (log_event (Log_debug ''notify %s at step %d'') (snd (notify env pre s)))) = Inl e \<and>
     called (new_events s (snd (notify env cs s))) = pre @ [c]"
  using assms
proof (induction cs arbitrary: s)
  case Nil
  then show ?case by simp
next
  case (Cons c cs)
  obtain p where p: "cbk_params s c = Some p"
    using Cons.prems(1) by auto
  define s1 where "s1 = log_event (Log_debug ''notify %s at step %d'') s"
  define r where "r = fst (callback_call env c (args p) (kwargs p) s1)"
  define s2 where "s2 = snd (external (callback_call env c (args p) (kwargs p) s1)
                               (log_event (Call c (args p) (kwargs p)) s1))"
  show ?case
  proof (cases r)
    case (Inl e')
    then have c: "fst (callback_call env c (args p) (kwargs p) (log_event (Log_debug ''notify %s at step %d'') s)) = Inl e'"
      by (simp add: r_def s1_def)
    have ee: "e' = e"
      using notify_Cons_raises[OF p c, of cs] Cons.prems(2) by simp
    have "c # cs = [] @ c # cs \<and> fst (notify env [] s) = Inr () \<and> cbk_params s c = Some p \<and>
        fst (callback_call env c (args p) (kwargs p)
            (log_event (Log_debug ''notify %s at step %d'') (snd (notify env [] s)))) = Inl e \<and>
        called (new_events s (snd (notify env (c # cs) s))) = [] @ [c]"
      using notify_Cons_raises[OF p c, of cs] p c ee by simp
    then show ?thesis
      by blast
  next
    case (Inr u)
    then have c: "fst (callback_call env c (args p) (kwargs p) (log_event (Log_debug ''notify %s at step %d'') s)) = Inr ()"
      by (simp add: r_def s1_def)
    have step: "\<And>xs. notify env (c # xs) s = notify env xs s2"
      unfolding s2_def s1_def by (rule notify_Cons_returns[OF p c])
    have t2: "trace s2 = trace s @ [Log_debug ''notify %s at step %d'', Call c (args p) (kwargs p)]"
      and cp: "cbk_params s2 = cbk_params s"
      by (simp_all add: s2_def s1_def external_shape log_event_def)
    have wf2: "set cs \<subseteq> dom (cbk_params s2)"
      using Cons.prems(1) by (simp add: cp)
    have r2: "fst (notify env cs s2) = Inl e"
      using Cons.prems(2) by (simp only: step)
    obtain pre c' post p' where ih: "cs = pre @ c' # post" "fst (notify env pre s2) = Inr ()"
        "cbk_params s2 c' = Some p'"
        "fst (callback_call env c' (args p') (kwargs p')
            (log_event (Log_debug ''notify %s at step %d'') (snd (notify env pre s2)))) = Inl e"
        "called (new_events s2 (snd (notify env cs s2))) = pre @ [c']"
      using Cons.IH[OF wf2 r2] by blast
    obtain es where es: "trace (snd (notify env cs s2)) = trace s2 @ es"
      using notify_shape[of env cs s2] by blast
    have "new_events s2 (snd (notify env cs s2)) = es"
      using es by (rule new_events_append)
    moreover have "new_events s (snd (notify env cs s2))
        = [Log_debug ''notify %s at step %d'', Call c (args p) (kwargs p)] @ es"
      by (rule new_events_append) (simp add: es t2)
    ultimately have ca: "called (new_events s (snd (notify env cs s2))) = (c # pre) @ [c']"
      using ih(5) by (simp add: called_Cons)
    have "c # cs = (c # pre) @ c' # post \<and> fst (notify env (c # pre) s) = Inr () \<and>
        cbk_params s c' = Some p' \<and>
        fst (callback_call env c' (args p') (kwargs p')
            (log_event (Log_debug ''notify %s at step %d'') (snd (notify env (c # pre) s)))) = Inl e \<and>
        called (new_events s (snd (notify env (c # cs) s))) = (c # pre) @ [c']"
      unfolding step using ih(1,2,3,4) ca cp by simp
    then show ?thesis
      by blast
  qed
qed

lemma write_checkpoint_shape:
  "trace (snd (write_checkpoint env s)) = trace s @ [Backend_write_checkpoint] \<and>
   kept s (snd (write_checkpoint env s)) \<and> steps (snd (write_checkpoint env s)) = steps s"
  by (simp add: write_checkpoint_def external_shape log_event_def kept_def)

lemma run_until_shape:
  "trace (snd (run_until env n s)) = trace s @ [Backend_run_until n] \<and>
   kept s (snd (run_until env n s)) \<and>
   (fst (run_until env n s) = Inr () \<longrightarrow> steps (snd (run_until env n s)) = n)"
  by (simp add: run_until_def external_shape log_event_def kept_def split: sum.splits)

lemma report_observers_shape:
  "\<exists>es. trace (snd (report_observers fs s)) = trace s @ es \<and> list_all log_record es \<and>
     same_but_trace s (snd (report_observers fs s))"
proof (induction fs arbitrary: s)
  case Nil
  then show ?case by (simp add: same_but_trace_def)
next
  case (Cons f fs)
  define s1 where "s1 = log_event (Log_info ''target %s: %s'') s"
  define s2 where "s2 = log_event (Log_info ''writer %s: interval=%s calls=%s'') s"
  have stay: "\<exists>es. trace s = trace s @ es \<and> list_all log_record es \<and> same_but_trace s s"
    by (intro exI[of _ "[]"]) (simp add: same_but_trace_def)
  have step: "\<exists>es. trace (snd (report_observers fs (log_event (Log_info m) s))) = trace s @ es \<and>
      list_all log_record es \<and> same_but_trace s (snd (report_observers fs (log_event (Log_info m) s)))" for m
  proof -
    obtain es where es: "trace (snd (report_observers fs (log_event (Log_info m) s)))
        = trace (log_event (Log_info m) s) @ es" "list_all log_record es"
        "same_but_trace (log_event (Log_info m) s) (snd (report_observers fs (log_event (Log_info m) s)))"
      using Cons.IH[of "log_event (Log_info m) s"] by blast
    have "trace (snd (report_observers fs (log_event (Log_info m) s))) = trace s @ (Log_info m # es)"
      using es(1) by (simp add: log_event_def)
    moreover have "list_all log_record (Log_info m # es)"
      using es(2) by (simp add: log_record_def)
    moreover have "same_but_trace s (snd (report_observers fs (log_event (Log_info m) s)))"
      using es(3) by (simp add: same_but_trace_def kept_def log_event_def)
    ultimately show ?thesis
      by blast
  qed
  show ?case
    using stay step
    by (simp split: option.splits list.splits scheduler.splits)
qed

lemma report_end_shape:
  "\<exists>es. trace (snd (report_end env now s)) = trace s @ Log_info ''simulation ended on: %s'' # es \<and>
     list_all log_record es \<and> same_but_trace s (snd (report_end env now s))"
  by (auto simp: report_end_def Let_def log_events_def log_event_def log_record_def
        same_but_trace_def kept_def split: sum.splits)

lemma report_header_shape:
  "\<exists>es. report_header s = s\<lparr>trace := trace s @ es\<rparr> \<and> list_all log_record es"
  by (auto simp: report_header_def log_events_def log_record_def split: option.splits)

lemma clear_all_shape:
  "\<exists>es. trace (snd (clear_all env cs s)) = trace s @ es \<and> map Clear (clears es) = es \<and>
     prefix (clears es) [c \<leftarrow> cs. callback_clear env c \<noteq> None] \<and>
     (fst (clear_all env cs s) = Inr () \<longrightarrow> clears es = [c \<leftarrow> cs. callback_clear env c \<noteq> None]) \<and>
     kept s (snd (clear_all env cs s)) \<and> steps (snd (clear_all env cs s)) = steps s"
proof (induction cs arbitrary: s)
  case Nil
  then show ?case by simp
next
  case (Cons c cs)
  show ?case
  proof (cases "callback_clear env c")
    case None
    then show ?thesis
      using Cons.IH[of s] by simp
  next
    case (Some hook)
    define r where "r = fst (hook s)"
    define s1 where "s1 = (log_event (Clear c) s)\<lparr>backend := fst (snd (hook s)), world := snd (snd (hook s))\<rparr>"
    have t1: "trace s1 = trace s @ [Clear c]" and k1: "kept s s1" and st1: "steps s1 = steps s"
      by (simp_all add: s1_def log_event_def kept_def)
    have unf: "clear_all env (c # cs) s =
        (if r = Inr () \<or> r = Inl AttributeError then clear_all env cs s1 else (r, s1))"
      using Some by (simp add: external_shape r_def s1_def)
    show ?thesis
    proof (cases "r = Inr () \<or> r = Inl AttributeError")
      case True
      then have eq: "clear_all env (c # cs) s = clear_all env cs s1"
        by (simp add: unf del: clear_all.simps)
      obtain es where es: "trace (snd (clear_all env cs s1)) = trace s1 @ es" "map Clear (clears es) = es"
          "prefix (clears es) [c \<leftarrow> cs. callback_clear env c \<noteq> None]"
          "fst (clear_all env cs s1) = Inr () \<longrightarrow> clears es = [c \<leftarrow> cs. callback_clear env c \<noteq> None]"
          "kept s1 (snd (clear_all env cs s1))" "steps (snd (clear_all env cs s1)) = steps s1"
        using Cons.IH[of s1] by blast
      have c: "clears (Clear c # es) = c # clears es"
        by (simp add: clears_Cons)
      have a: "trace (snd (clear_all env (c # cs) s)) = trace s @ (Clear c # es)"
        unfolding eq using es(1) t1 by simp
      have b: "map Clear (clears (Clear c # es)) = Clear c # es"
        unfolding c using es(2) by simp
      have d: "prefix (clears (Clear c # es)) [c \<leftarrow> c # cs. callback_clear env c \<noteq> None]"
        unfolding c using es(3) Some by simp
      have e: "fst (clear_all env (c # cs) s) = Inr () \<longrightarrow>
          clears (Clear c # es) = [c \<leftarrow> c # cs. callback_clear env c \<noteq> None]"
        unfolding eq c using es(4) Some by simp
      have f: "kept s (snd (clear_all env (c # cs) s))"
        unfolding eq by (rule kept_trans[OF k1 es(5)])
      have g: "steps (snd (clear_all env (c # cs) s)) = steps s"
        unfolding eq using es(6) st1 by simp
      show ?thesis
        by (intro exI[of _ "Clear c # es"] conjI a b d e f g)
    next
      case False
      then have eq: "clear_all env (c # cs) s = (r, s1)"
        by (simp add: unf del: clear_all.simps)
      show ?thesis
        unfolding eq using t1 k1 st1 Some False
        by (intro exI[of _ "[Clear c]"]) (simp add: clears_Cons)
    qed
  qed
qed

lemma run_pre_clearing:
  "\<exists>es. trace (snd (clearing env now s)) = trace s @ es \<and> map Clear (clears es) = es \<and>
     prefix (clears es) (expected_clears env s) \<and>
     (fst (clearing env now s) = Inr () \<longrightarrow> clears es = expected_clears env s) \<and>
     kept s (snd (clearing env now s)) \<and> steps (snd (clearing env now s)) = steps s \<and>
     (output_path s = None \<longrightarrow>
        backend (snd (clearing env now s)) = backend s \<and> world (snd (clearing env now s)) = world s)"
proof (cases "output_path s")
  case None
  then show ?thesis
    by (simp add: clearing_def expected_clears_def kept_def)
next
  case (Some p)
  define s2 where "s2 = s\<lparr>start_time := now, backend := (backend s)\<lparr>backend_output_path := Some p\<rparr>\<rparr>"
  have s2: "trace s2 = trace s" "kept s s2" "steps s2 = steps s" "callback s2 = callback s"
    by (simp_all add: s2_def kept_def)
  show ?thesis
  proof (cases "restart s")
    case True
    then show ?thesis
      using Some by (simp add: clearing_def expected_clears_def kept_def)
  next
    case False
    then have eq: "clearing env now s = clear_all env (callback s) s2"
      using Some by (simp add: clearing_def s2_def)
    have ex: "expected_clears env s = [c \<leftarrow> callback s. callback_clear env c \<noteq> None]"
      using Some False by (simp add: expected_clears_def)
    obtain es where es: "trace (snd (clear_all env (callback s) s2)) = trace s2 @ es"
        "map Clear (clears es) = es"
        "prefix (clears es) [c \<leftarrow> callback s. callback_clear env c \<noteq> None]"
        "fst (clear_all env (callback s) s2) = Inr () \<longrightarrow> clears es = [c \<leftarrow> callback s. callback_clear env c \<noteq> None]"
        "kept s2 (snd (clear_all env (callback s) s2))" "steps (snd (clear_all env (callback s) s2)) = steps s2"
      using clear_all_shape[of env "callback s" s2] by blast
    have k: "kept s (snd (clear_all env (callback s) s2))"
      by (rule kept_trans[OF s2(2) es(5)])
    show ?thesis
      unfolding eq ex using es(1,2,3,4,6) k s2(1,3) Some
      by (intro exI[of _ es]) simp
  qed
qed

lemma run_pre_unfold:
  "run_pre env now s =
     (case clearing env now s of
        (Inl e, s3) \<Rightarrow> (Inl e, s3)
      | (Inr u, s3) \<Rightarrow>
          (case external (backend_run_pre env (restart s3) (backend s3) (world s3))
                  (log_event (Backend_run_pre (restart s3)) s3) of
             (Inl e, s4) \<Rightarrow> (Inl e, s4)
           | (Inr u, s4) \<Rightarrow>
               (Inr (), log_event Barrier
                  (if restart s4 then s4\<lparr>steps := backend_steps (backend s4)\<rparr> else s4))))"
  by (simp add: run_pre_def clearing_def Let_def)

lemma run_pre_shape:
  "\<exists>es. trace (snd (run_pre env now s)) = trace s @ es \<and>
     prefix (clears es) (expected_clears env s) \<and>
     (fst (run_pre env now s) = Inr () \<longrightarrow> clears es = expected_clears env s) \<and>
     called es = [] \<and> checkpoints es = 0 \<and> advances es = [] \<and>
     kept s (snd (run_pre env now s)) \<and>
     (restart s \<longrightarrow> fst (run_pre env now s) = Inr () \<longrightarrow>
        steps (snd (run_pre env now s)) = backend_steps (backend (snd (run_pre env now s)))) \<and>
     (\<not> restart s \<longrightarrow> steps (snd (run_pre env now s)) = steps s)"
proof -
  define r3 where "r3 = fst (clearing env now s)"
  define s3 where "s3 = snd (clearing env now s)"
  obtain es where es: "trace s3 = trace s @ es" "map Clear (clears es) = es"
      "prefix (clears es) (expected_clears env s)"
      "r3 = Inr () \<longrightarrow> clears es = expected_clears env s"
      "kept s s3" "steps s3 = steps s"
    using run_pre_clearing[of env now s] unfolding r3_def s3_def by blast
  have pj: "called es = []" "checkpoints es = 0" "advances es = []"
    using map_Clear_project[of "clears es"] es(2) by simp_all
  have re: "restart s3 = restart s"
    using es(5) by (simp add: kept_def)
  define b where "b = backend_run_pre env (restart s) (backend s3) (world s3)"
  define s4 where "s4 = (log_event (Backend_run_pre (restart s)) s3)\<lparr>backend := fst (snd b), world := snd (snd b)\<rparr>"
  define s5 where "s5 = log_event Barrier (if restart s then s4\<lparr>steps := backend_steps (backend s4)\<rparr> else s4)"
  have cl: "clearing env now s = (r3, s3)"
    by (simp add: r3_def s3_def)
  have unf: "run_pre env now s =
      (case r3 of Inl e \<Rightarrow> (Inl e, s3)
       | Inr u \<Rightarrow> (case fst b of Inl e \<Rightarrow> (Inl e, s4) | Inr u \<Rightarrow> (Inr (), s5)))"
    unfolding run_pre_unfold cl
    by (simp add: external_shape re b_def s4_def s5_def log_event_def split: sum.splits)
  have t4: "trace s4 = trace s @ es @ [Backend_run_pre (restart s)]" and k4: "kept s s4"
    and st4: "steps s4 = steps s"
    using es(1,5,6) by (simp_all add: s4_def log_event_def kept_def)
  have t5: "trace s5 = trace s @ es @ [Backend_run_pre (restart s), Barrier]" and k5: "kept s s5"
    and st5: "restart s \<longrightarrow> steps s5 = backend_steps (backend s5)" "\<not> restart s \<longrightarrow> steps s5 = steps s"
    using t4 k4 st4 by (simp_all add: s5_def log_event_def kept_def)
  have p4: "clears (es @ [Backend_run_pre (restart s)]) = clears es"
    "called (es @ [Backend_run_pre (restart s)]) = []"
    "checkpoints (es @ [Backend_run_pre (restart s)]) = 0"
    "advances (es @ [Backend_run_pre (restart s)]) = []"
    using pj by (simp_all add: clears_Cons called_Cons checkpoints_Cons advances_Cons)
  have p5: "clears (es @ [Backend_run_pre (restart s), Barrier]) = clears es"
    "called (es @ [Backend_run_pre (restart s), Barrier]) = []"
    "checkpoints (es @ [Backend_run_pre (restart s), Barrier]) = 0"
    "advances (es @ [Backend_run_pre (restart s), Barrier]) = []"
    using pj by (simp_all add: clears_Cons called_Cons checkpoints_Cons advances_Cons)
  show ?thesis
  proof (cases r3)
    case (Inl e)
    then have "run_pre env now s = (Inl e, s3)"
      by (simp add: unf)
    then show ?thesis
      using es(1,3,5,6) pj by (intro exI[of _ es]) simp
  next
    case r3: (Inr u)
    show ?thesis
    proof (cases "fst b")
      case (Inl e)
      then have "run_pre env now s = (Inl e, s4)"
        using r3 by (simp add: unf)
      then show ?thesis
        using t4 k4 st4 es(3) p4
        by (intro exI[of _ "es @ [Backend_run_pre (restart s)]"]) simp
    next
      case (Inr v)
      then have "run_pre env now s = (Inr (), s5)"
        using r3 by (simp add: unf)
      then show ?thesis
        using t5 k5 st5 es(3,4) r3 p5
        by (intro exI[of _ "es @ [Backend_run_pre (restart s), Barrier]"]) simp
    qed
  qed
qed

lemma run_pre_no_output_path:
  assumes "output_path s = None"
  shows "backend (snd (run_pre env now s)) = fst (snd (backend_run_pre env (restart s) (backend s) (world s)))"
  using assms
  by (simp add: run_pre_def external_shape log_event_def Let_def split: sum.splits)

lemma run_added_fields:
  "restart (run_added n s) = restart s \<and> output_path (run_added n s) = output_path s \<and>
   max_steps (run_added n s) = max_steps (run_reset n s) \<and>
   checkpoint_scheduler (run_added n s) = checkpoint_scheduler s \<and>
   trace (run_added n s) = trace s \<and> steps (run_added n s) = steps (run_reset n s)"
  by (simp add: run_added_def add_def run_reset_def Let_def split: option.splits)

lemma run_reset_fresh:
  "\<not> restart s \<or> steps s = 0 \<Longrightarrow>
     steps (run_reset n s) = 0 \<and> backend_steps (backend (run_reset n s)) = 0"
  by (auto simp: run_reset_def Let_def split: option.splits)

lemma run_reset_resumed:
  "restart s \<Longrightarrow> steps s \<noteq> 0 \<Longrightarrow> run_reset n s = s"
  by (simp add: run_reset_def)

lemma run_prologue_shape:
  "\<exists>es. trace (snd (run_prologue env now n s)) = trace s @ es \<and>
     prefix (clears es) (expected_clears env (run_added n s)) \<and>
     (fst (run_prologue env now n s) = Inr () \<longrightarrow> clears es = expected_clears env (run_added n s)) \<and>
     called es = [] \<and> checkpoints es = 0 \<and> advances es = [] \<and>
     restart (snd (run_prologue env now n s)) = restart s \<and>
     output_path (snd (run_prologue env now n s)) = output_path s \<and>
     max_steps (snd (run_prologue env now n s)) = max_steps (run_reset n s) \<and>
     checkpoint_scheduler (snd (run_prologue env now n s)) = checkpoint_scheduler s \<and>
     callback (snd (run_prologue env now n s)) = callback (run_added n s) \<and>
     cbk_params (snd (run_prologue env now n s)) = cbk_params (run_added n s) \<and>
     (restart s \<longrightarrow> fst (run_prologue env now n s) = Inr () \<longrightarrow>
        steps (snd (run_prologue env now n s)) = backend_steps (backend (snd (run_prologue env now n s)))) \<and>
     (\<not> restart s \<longrightarrow> steps (snd (run_prologue env now n s)) = 0)"
proof -
  define sa where "sa = run_added n s"
  obtain hs where hs: "report_header sa = sa\<lparr>trace := trace sa @ hs\<rparr>" "list_all log_record hs"
    using report_header_shape[of sa] by blast
  define sh where "sh = report_header sa"
  have fa: "restart sa = restart s" "output_path sa = output_path s"
      "max_steps sa = max_steps (run_reset n s)" "checkpoint_scheduler sa = checkpoint_scheduler s"
      "trace sa = trace s" "steps sa = steps (run_reset n s)"
    using run_added_fields[of n s] by (simp_all add: sa_def)
  have th: "trace sh = trace s @ hs" and kh: "kept sa sh" and sth: "steps sh = steps sa"
    using hs(1) fa(5) by (simp_all add: sh_def kept_def)
  have exh: "expected_clears env sh = expected_clears env sa"
    using kh by (simp add: expected_clears_def kept_def)
  have hp: "called hs = []" "clears hs = []" "checkpoints hs = 0" "advances hs = []"
    using log_records_project[OF hs(2)] by simp_all
  define r4 where "r4 = fst (run_pre env now sh)"
  define s4 where "s4 = snd (run_pre env now sh)"
  obtain ps where ps: "trace s4 = trace sh @ ps" "prefix (clears ps) (expected_clears env sa)"
      "r4 = Inr () \<longrightarrow> clears ps = expected_clears env sa"
      "called ps = []" "checkpoints ps = 0" "advances ps = []" "kept sh s4"
      "restart sh \<longrightarrow> r4 = Inr () \<longrightarrow> steps s4 = backend_steps (backend s4)"
      "\<not> restart sh \<longrightarrow> steps s4 = steps sh"
    using run_pre_shape[of env now sh] unfolding r4_def s4_def exh by blast
  have k4: "kept sa s4"
    by (rule kept_trans[OF kh ps(7)])
  define s4i where "s4i = s4\<lparr>initial_steps := steps s4\<rparr>"
  define r5 where "r5 = fst (report s4i)"
  define s5 where "s5 = snd (report s4i)"
  obtain rs where rs: "trace s5 = trace s4i @ rs" "list_all log_record rs" "same_but_trace s4i s5"
    using report_observers_shape[of "callback s4i" s4i] unfolding r5_def s5_def report_def by blast
  have rp: "called rs = []" "clears rs = []" "checkpoints rs = 0" "advances rs = []"
    using log_records_project[OF rs(2)] by simp_all
  define s6 where "s6 = s5\<lparr>world := fold (speedometer_reinit env) (speedometers s5) (world s5)\<rparr>"
  have unf: "run_prologue env now n s =
      (case r4 of Inl e \<Rightarrow> (Inl e, s4)
       | Inr u \<Rightarrow> (case r5 of Inl e \<Rightarrow> (Inl e, s5) | Inr u \<Rightarrow> (Inr (), s6)))"
  proof -
    have a: "run_pre env now sh = (r4, s4)"
      by (simp add: r4_def s4_def)
    have b: "report s4i = (r5, s5)"
      by (simp add: r5_def s5_def)
    show ?thesis
      unfolding run_prologue_def Let_def run_added_def[symmetric] sa_def[symmetric]
        sh_def[symmetric] a
      by (cases r4) (simp_all add: s4i_def[symmetric] b s6_def split: sum.splits)
  qed
  have rs0: "\<not> restart s \<longrightarrow> steps (run_reset n s) = 0"
    using run_reset_fresh[of s n] by simp
  have f4: "restart s4 = restart s" "output_path s4 = output_path s"
      "max_steps s4 = max_steps (run_reset n s)" "checkpoint_scheduler s4 = checkpoint_scheduler s"
      "callback s4 = callback sa" "cbk_params s4 = cbk_params sa"
    using k4 fa by (simp_all add: kept_def)
  have st4: "restart s \<longrightarrow> r4 = Inr () \<longrightarrow> steps s4 = backend_steps (backend s4)"
      "\<not> restart s \<longrightarrow> steps s4 = 0"
    using ps(8,9) kh fa(1,6) sth rs0 by (simp_all add: kept_def)
  have f5: "restart s5 = restart s" "output_path s5 = output_path s"
      "max_steps s5 = max_steps (run_reset n s)" "checkpoint_scheduler s5 = checkpoint_scheduler s"
      "callback s5 = callback sa" "cbk_params s5 = cbk_params sa"
      "steps s5 = steps s4" "backend s5 = backend s4"
    using rs(3) f4 by (simp_all add: same_but_trace_def kept_def s4i_def)
  have t4: "trace s4 = trace s @ (hs @ ps)"
    using th ps(1) by simp
  have t5: "trace s5 = trace s @ (hs @ ps @ rs)"
    using t4 rs(1) by (simp add: s4i_def)
  show ?thesis
  proof (cases r4)
    case (Inl e)
    then have "run_prologue env now n s = (Inl e, s4)"
      by (simp add: unf)
    then show ?thesis
      unfolding sa_def[symmetric] using t4 ps(2,4,5,6) hp f4 st4(2)
      by (intro exI[of _ "hs @ ps"]) simp
  next
    case r4: (Inr u)
    show ?thesis
    proof (cases r5)
      case (Inl e)
      then have "run_prologue env now n s = (Inl e, s5)"
        using r4 by (simp add: unf)
      then show ?thesis
        unfolding sa_def[symmetric] using t5 ps(2,4,5,6) hp rp f5 st4(2)
        by (intro exI[of _ "hs @ ps @ rs"]) simp
    next
      case (Inr v)
      then have "run_prologue env now n s = (Inr (), s6)"
        using r4 by (simp add: unf)
      then show ?thesis
        unfolding sa_def[symmetric] using t5 ps(2,3,4,5,6) hp rp f5 st4 r4
        by (intro exI[of _ "hs @ ps @ rs"]) (simp add: s6_def)
    qed
  qed
qed

lemma run_prologue_keeps_params:
  assumes "set (callback s) \<subseteq> dom (cbk_params s)"
  shows "set (callback (snd (run_prologue env now n s)))
           \<subseteq> dom (cbk_params (snd (run_prologue env now n s)))"
proof -
  have "callback (run_reset n s) = callback s" "cbk_params (run_reset n s) = cbk_params s"
    by (simp_all add: run_reset_def Let_def split: option.splits)
  then have "set (callback (run_added n s)) \<subseteq> dom (cbk_params (run_added n s))"
    unfolding run_added_def using assms by (intro add_keeps_params) simp
  then show ?thesis
    using run_prologue_shape[of env now n s] by auto
qed

lemma run_initial_shape:
  "\<exists>es tl. trace (snd (run_initial env s)) = trace s @ es @ tl \<and> list_all notify_event es \<and>
     prefix (called es) (targeters s @ (if steps s = 0 then non_targeters s else speedometers s)) \<and>
     (fst (run_initial env s) = Inr () \<longrightarrow>
        called es = targeters s @ (if steps s = 0 then non_targeters s else speedometers s)) \<and>
     called tl = [] \<and> clears tl = [] \<and> checkpoints tl = 0 \<and> advances tl = [] \<and>
     kept s (snd (run_initial env s)) \<and> steps (snd (run_initial env s)) = steps s"
proof -
  define rest where "rest = (if steps s = 0 then non_targeters s else speedometers s)"
  define r1 where "r1 = fst (notify env (targeters s) s)"
  define s1 where "s1 = snd (notify env (targeters s) s)"
  define r2 where "r2 = fst (notify env rest s1)"
  define s2 where "s2 = snd (notify env rest s1)"
  define tl where "tl = [Log_info ''starting at step: %d'', Log_info []]"
  obtain es1 where es1: "trace s1 = trace s @ es1" "list_all notify_event es1"
      "prefix (called es1) (targeters s)" "r1 = Inr () \<longrightarrow> called es1 = targeters s"
      "kept s s1" "steps s1 = steps s"
    using notify_shape[of env "targeters s" s] unfolding r1_def s1_def by blast
  obtain es2 where es2: "trace s2 = trace s1 @ es2" "list_all notify_event es2"
      "prefix (called es2) rest" "r2 = Inr () \<longrightarrow> called es2 = rest"
      "kept s1 s2" "steps s2 = steps s1"
    using notify_shape[of env rest s1] unfolding r2_def s2_def by blast
  have same: "non_targeters s1 = non_targeters s" "speedometers s1 = speedometers s"
    using es1(5) by (simp_all add: kept_def non_targeters_def speedometers_def)
  have ri: "run_initial env s =
      (case r1 of Inl e \<Rightarrow> (Inl e, s1)
       | Inr u \<Rightarrow> (case r2 of Inl e \<Rightarrow> (Inl e, s2) | Inr u \<Rightarrow> (Inr (), log_events tl s2)))"
  proof -
    have n1: "notify env (targeters s) s = (r1, s1)"
      by (simp add: r1_def s1_def)
    have br: "(if steps s1 = 0 then notify env (non_targeters s1) s1
               else notify env (speedometers s1) s1) = (r2, s2)"
      using es1(6) same by (simp add: r2_def s2_def rest_def)
    show ?thesis
      unfolding run_initial_def n1
      by (cases r1) (simp_all add: br tl_def split: sum.splits)
  qed
  have tlp: "called tl = []" "clears tl = []" "checkpoints tl = 0" "advances tl = []"
    by (simp_all add: tl_def called_Cons clears_Cons checkpoints_Cons advances_Cons)
  have k2: "kept s s2"
    by (rule kept_trans[OF es1(5) es2(5)])
  show ?thesis
  proof (cases r1)
    case (Inl e)
    then have "run_initial env s = (Inl e, s1)"
      by (simp add: ri)
    then show ?thesis
      unfolding rest_def[symmetric] using es1 Inl
      by (intro exI[of _ es1] exI[of _ "[]"]) simp
  next
    case r1: (Inr u)
    have pre: "prefix (called (es1 @ es2)) (targeters s @ rest)"
      using es1(4) es2(3) r1 by simp
    have a2: "list_all notify_event (es1 @ es2)"
      using es1(2) es2(2) by simp
    show ?thesis
    proof (cases r2)
      case (Inl e)
      then have "run_initial env s = (Inl e, s2)"
        using r1 by (simp add: ri)
      then show ?thesis
        unfolding rest_def[symmetric] using es1(1,6) es2(1,6) pre a2 k2
        by (intro exI[of _ "es1 @ es2"] exI[of _ "[]"]) simp
    next
      case (Inr v)
      then have "run_initial env s = (Inr (), log_events tl s2)"
        using r1 by (simp add: ri)
      moreover have "called (es1 @ es2) = targeters s @ rest"
        using es1(4) es2(4) r1 Inr by simp
      moreover have "trace (log_events tl s2) = trace s @ (es1 @ es2) @ tl"
        using es1(1) es2(1) by (simp add: log_events_def)
      moreover have "kept s (log_events tl s2)" "steps (log_events tl s2) = steps s"
        using k2 es1(6) es2(6) by (simp_all add: kept_def log_events_def)
      ultimately show ?thesis
        unfolding rest_def[symmetric] using pre a2 tlp
        by (intro exI[of _ "es1 @ es2"] exI[of _ tl]) simp
    qed
  qed
qed

text \<open>
  C10: without an output path, \<^verbatim>\<open>run_pre\<close> calls no reset hook, restart or not, and
  assigns nothing to the backend: the backend it leaves is the one the backend's own
  \<^verbatim>\<open>run_pre\<close> made of the backend as it was.
\<close>

theorem run_pre_without_output_path:
  assumes "output_path s = None"
  shows "clears (new_events s (snd (run_pre env now s))) = [] \<and>
         backend (snd (run_pre env now s))
           = fst (snd (backend_run_pre env (restart s) (backend s) (world s)))"
proof -
  obtain es where es: "trace (snd (run_pre env now s)) = trace s @ es"
      "prefix (clears es) (expected_clears env s)"
    using run_pre_shape[of env now s] by blast
  have "expected_clears env s = []"
    using assms by (simp add: expected_clears_def)
  then have "clears (new_events s (snd (run_pre env now s))) = []"
    using es by (simp add: new_events_def)
  then show ?thesis
    using run_pre_no_output_path[OF assms, of env now] by simp
qed

theorem run_pre_without_output_path_witness:
  "output_path quiet = None \<and> \<not> restart quiet \<and> callback quiet = [writer] \<and>
   clears (new_events quiet (snd (run_pre example_env 0 quiet))) = [] \<and>
   backend_output_path (backend (snd (run_pre example_env 0 quiet))) = None"
proof -
  have h: "output_path quiet = None"
    by code_simp
  have f: "\<not> restart quiet" "callback quiet = [writer]"
    by code_simp+
  have b: "backend_output_path (fst (snd (backend_run_pre example_env (restart quiet) (backend quiet) (world quiet)))) = None"
    by code_simp
  show ?thesis
    using h f b run_pre_without_output_path [OF h, of example_env 0] by simp
qed

text \<open>
  C8: before the main loop, \<^verbatim>\<open>run\<close> notifies the targeters, then the other
  observers when the step count is zero and the speedometers otherwise. Nobody else is
  called, in this order, and the loop is entered when and only when all of these calls
  have returned; an exception of one of them is the exception the guarded part ends with.
\<close>

theorem initial_notifications:
  "prefix (called (new_events s (snd (run_initial env s))))
     (targeters s @ (if steps s = 0 then non_targeters s else speedometers s)) \<and>
   (fst (run_initial env s) = Inr () \<longrightarrow>
      called (new_events s (snd (run_initial env s)))
        = targeters s @ (if steps s = 0 then non_targeters s else speedometers s) \<and>
      run_guarded env s = main_loop env (snd (run_initial env s))) \<and>
   (fst (run_initial env s) \<noteq> Inr () \<longrightarrow>
      (\<exists>e. fst (run_initial env s) = Inl e \<and> run_guarded env s = Some (e, snd (run_initial env s))))"
proof -
  obtain es tl where i: "trace (snd (run_initial env s)) = trace s @ es @ tl"
      "prefix (called es) (targeters s @ (if steps s = 0 then non_targeters s else speedometers s))"
      "fst (run_initial env s) = Inr () \<longrightarrow>
        called es = targeters s @ (if steps s = 0 then non_targeters s else speedometers s)"
      "called tl = []"
    using run_initial_shape[of env s] by blast
  have ne: "new_events s (snd (run_initial env s)) = es @ tl"
    using i(1) by (rule new_events_append)
  have ca: "called (es @ tl) = called es"
    using i(4) by simp
  have g1: "run_guarded env s = main_loop env (snd (run_initial env s))"
    if "fst (run_initial env s) = Inr ()"
    using that by (cases "run_initial env s") (auto simp: run_guarded_def)
  have g2: "\<exists>e. fst (run_initial env s) = Inl e \<and> run_guarded env s = Some (e, snd (run_initial env s))"
    if "fst (run_initial env s) \<noteq> Inr ()"
    using that by (cases "run_initial env s"; cases "fst (run_initial env s)") (auto simp: run_guarded_def)
  show ?thesis
    unfolding ne ca using i(2,3) g1 g2 by blast
qed

theorem initial_notifications_witness:
  "fst (run_initial example_env (run_added None ready)) = Inr () \<and>
   called (new_events (run_added None ready) (snd (run_initial example_env (run_added None ready))))
     = [target_steps, writer] \<and>
   fst (run_initial example_env (run_added None resumed)) = Inr () \<and>
   called (new_events (run_added None resumed) (snd (run_initial example_env (run_added None resumed))))
     = [target_steps, speedo]"
proof -
  have a: "fst (run_initial example_env (run_added None ready)) = Inr ()"
    and b: "fst (run_initial example_env (run_added None resumed)) = Inr ()"
    by code_simp+
  have c: "targeters (run_added None ready) @
      (if steps (run_added None ready) = 0 then non_targeters (run_added None ready)
       else speedometers (run_added None ready)) = [target_steps, writer]"
    by code_simp
  have d: "targeters (run_added None resumed) @
      (if steps (run_added None resumed) = 0 then non_targeters (run_added None resumed)
       else speedometers (run_added None resumed)) = [target_steps, speedo]"
    by code_simp
  show ?thesis
    using a b c d initial_notifications [of "run_added None ready" example_env]
      initial_notifications [of "run_added None resumed" example_env]
    by simp
qed

section \<open>The main loop\<close>

lemma all_steps_triggers:
  "set cs \<subseteq> dom (cbk_params s) \<Longrightarrow> all_steps env cs s = Inr (map (trigger env s) cs)"
  by (induction cs) (auto simp: trigger_def)

lemma next_step_ids_zip:
  "map (\<lambda>i. cbs ! i) (next_step_ids (map f cbs) n) = [c \<leftarrow> cbs. f c = n]"
proof -
  have ids: "next_step_ids (map f cbs) n = [i \<leftarrow> [0..<length cbs]. f (cbs ! i) = n]"
    unfolding next_step_ids_def by (rule filter_cong) simp_all
  have "[c \<leftarrow> cbs. f c = n] = [c \<leftarrow> map (\<lambda>i. cbs ! i) [0..<length cbs]. f c = n]"
    by (simp add: map_nth)
  also have "\<dots> = map (\<lambda>i. cbs ! i) [i \<leftarrow> [0..<length cbs]. f (cbs ! i) = n]"
    by (simp add: filter_map comp_def)
  finally show ?thesis
    by (simp add: ids)
qed

lemma next_step_ids_bound: "list_all (\<lambda>i. i < length ns) (next_step_ids ns n)"
  by (simp add: next_step_ids_def list_all_iff)

lemma next_observers_batch:
  "next_observers cbs (next_step_ids (map f cbs) n) = Inr [c \<leftarrow> cbs. f c = n]"
  using next_step_ids_bound[of "map f cbs" n]
  by (simp add: next_observers_def next_step_ids_zip)

lemma min_list_spec_next_step:
  "min_list (map (trigger env s) (callback s) @ [next_checkpoint env s]) = spec_next_step env s"
  by (simp add: min_list_Min spec_next_step_def Un_commute)

lemma loop_body_unfold:
  assumes wf: "set (callback s) \<subseteq> dom (cbk_params s)"
  shows "loop_body env s =
     (case run_until env (spec_next_step env s) s of
        (Inl e, s1) \<Rightarrow> (Inl e, s1)
      | (Inr u, s1) \<Rightarrow>
          (case notify env (spec_due env s) s1 of
             (Inl e, s2) \<Rightarrow> (Inl e, s2)
           | (Inr u, s2) \<Rightarrow>
               if spec_next_step env s = next_checkpoint env s then write_checkpoint env s2
               else (Inr (), s2)))"
proof (cases "run_until env (spec_next_step env s) s")
  case (Pair r s1)
  have k1: "kept s s1" and st1: "r = Inr () \<longrightarrow> steps s1 = spec_next_step env s"
    using run_until_shape[of env "spec_next_step env s" s] Pair by simp_all
  have cb: "callback s1 = callback s"
    using k1 by (simp add: kept_def)
  have obs: "next_observers (callback s1)
      (next_step_ids (map (trigger env s) (callback s)) (spec_next_step env s)) = Inr (spec_due env s)"
    unfolding cb spec_due_def by (rule next_observers_batch)
  show ?thesis
  proof (cases r)
    case (Inl e)
    then show ?thesis
      using Pair
      by (simp add: loop_body_def all_steps_triggers[OF wf] Let_def next_checkpoint_def[symmetric]
          min_list_spec_next_step)
  next
    case (Inr u)
    have st2: "steps (snd (notify env (spec_due env s) s1)) = spec_next_step env s"
      using notify_shape[of env "spec_due env s" s1] st1 Inr by auto
    show ?thesis
      using Pair Inr obs st2
      by (auto simp: loop_body_def all_steps_triggers[OF wf] Let_def next_checkpoint_def[symmetric]
          min_list_spec_next_step split: prod.splits sum.splits)
  qed
qed

lemma loop_body_shape:
  assumes wf: "set (callback s) \<subseteq> dom (cbk_params s)"
  shows "\<exists>es tl. trace (snd (loop_body env s)) = trace s @ Backend_run_until (spec_next_step env s) # es @ tl \<and>
     list_all notify_event es \<and> prefix (called es) (spec_due env s) \<and>
     (tl = [] \<or> tl = [Backend_write_checkpoint]) \<and>
     (tl \<noteq> [] \<longrightarrow> spec_next_step env s = next_checkpoint env s \<and> called es = spec_due env s) \<and>
     (fst (run_until env (spec_next_step env s) s) = Inr () \<longrightarrow>
      fst (notify env (spec_due env s) (snd (run_until env (spec_next_step env s) s))) = Inr () \<longrightarrow>
        called es = spec_due env s \<and> (tl \<noteq> [] \<longleftrightarrow> spec_next_step env s = next_checkpoint env s)) \<and>
     (fst (loop_body env s) = Inr () \<longrightarrow>
        steps (snd (loop_body env s)) = spec_next_step env s \<and> called es = spec_due env s \<and>
        (tl \<noteq> [] \<longleftrightarrow> spec_next_step env s = next_checkpoint env s)) \<and>
     kept s (snd (loop_body env s))"
proof -
  define n where "n = spec_next_step env s"
  define r1 where "r1 = fst (run_until env n s)"
  define s1 where "s1 = snd (run_until env n s)"
  define r2 where "r2 = fst (notify env (spec_due env s) s1)"
  define s2 where "s2 = snd (notify env (spec_due env s) s1)"
  have ru: "run_until env n s = (r1, s1)"
    by (simp add: r1_def s1_def)
  have no: "notify env (spec_due env s) s1 = (r2, s2)"
    by (simp add: r2_def s2_def)
  have t1: "trace s1 = trace s @ [Backend_run_until n]" and k1: "kept s s1"
    and st1: "r1 = Inr () \<longrightarrow> steps s1 = n"
    using run_until_shape[of env n s] by (simp_all add: r1_def s1_def)
  obtain es where es: "trace s2 = trace s1 @ es" "list_all notify_event es"
      "prefix (called es) (spec_due env s)" "r2 = Inr () \<longrightarrow> called es = spec_due env s"
      "kept s1 s2" "steps s2 = steps s1"
    using notify_shape[of env "spec_due env s" s1] unfolding r2_def s2_def by blast
  have k2: "kept s s2"
    by (rule kept_trans[OF k1 es(5)])
  have t2: "trace s2 = trace s @ Backend_run_until n # es @ []"
    using t1 es(1) by simp
  have wc: "trace (snd (write_checkpoint env s2)) = trace s @ Backend_run_until n # es @ [Backend_write_checkpoint]"
    "kept s (snd (write_checkpoint env s2))" "steps (snd (write_checkpoint env s2)) = steps s2"
    using write_checkpoint_shape[of env s2] t2 kept_trans[OF k2] by simp_all
  have lb: "loop_body env s =
     (case r1 of Inl e \<Rightarrow> (Inl e, s1)
      | Inr u \<Rightarrow> (case r2 of Inl e \<Rightarrow> (Inl e, s2)
          | Inr u \<Rightarrow> if n = next_checkpoint env s then write_checkpoint env s2 else (Inr (), s2)))"
    unfolding loop_body_unfold[OF wf] n_def[symmetric] ru using no
    by (simp split: sum.splits)
  show ?thesis
  proof (cases r1)
    case (Inl e)
    then have "loop_body env s = (Inl e, s1)"
      by (simp add: lb)
    then show ?thesis
      unfolding n_def[symmetric] r1_def[symmetric] using t1 k1 Inl
      by (intro exI[of _ "[]"]) simp
  next
    case r1: (Inr u)
    show ?thesis
    proof (cases r2)
      case (Inl e)
      then have "loop_body env s = (Inl e, s2)"
        using r1 by (simp add: lb)
      then show ?thesis
        unfolding n_def[symmetric] r1_def[symmetric] s1_def[symmetric] r2_def[symmetric]
        using t2 k2 es(2,3) Inl
        by (intro exI[of _ es] exI[of _ "[]"]) simp
    next
      case r2: (Inr v)
      show ?thesis
      proof (cases "n = next_checkpoint env s")
        case True
        then have "loop_body env s = write_checkpoint env s2"
          using r1 r2 by (simp add: lb)
        then show ?thesis
          unfolding n_def[symmetric] r1_def[symmetric] s1_def[symmetric] r2_def[symmetric]
          using wc es(2,3,4,6) r1 r2 st1 True
          by (intro exI[of _ es] exI[of _ "[Backend_write_checkpoint]"]) simp
      next
        case False
        then have "loop_body env s = (Inr (), s2)"
          using r1 r2 by (simp add: lb)
        then show ?thesis
          unfolding n_def[symmetric] r1_def[symmetric] s1_def[symmetric] r2_def[symmetric]
          using t2 k2 es(2,3,4,6) r1 r2 st1 False
          by (intro exI[of _ es] exI[of _ "[]"]) simp
      qed
    qed
  qed
qed

lemma loop_body_frame:
  "\<exists>es. trace (snd (loop_body env s)) = trace s @ es \<and> clears es = [] \<and> kept s (snd (loop_body env s))"
proof (cases "all_steps env (callback s) s")
  case (Inl e)
  then show ?thesis
    by (simp add: loop_body_def)
next
  case (Inr ns)
  define n where "n = min_list (ns @ [scheduler_call env (checkpoint_scheduler s) s])"
  define r1 where "r1 = fst (run_until env n s)"
  define s1 where "s1 = snd (run_until env n s)"
  have ru: "run_until env n s = (r1, s1)"
    by (simp add: r1_def s1_def)
  have t1: "trace s1 = trace s @ [Backend_run_until n]" and k1: "kept s s1"
    using run_until_shape[of env n s] by (simp_all add: s1_def)
  have c1: "clears [Backend_run_until n] = []"
    by (simp add: clears_Cons)
  have base: "\<exists>es. trace s1 = trace s @ es \<and> clears es = [] \<and> kept s s1"
    using t1 k1 c1 by blast
  have after: "\<exists>es. trace (snd (case notify env obs s1 of
             (Inl e, s2) \<Rightarrow> (Inl e, s2)
           | (Inr u, s2) \<Rightarrow> if steps s2 = c then write_checkpoint env s2 else (Inr (), s2)))
        = trace s @ es \<and> clears es = [] \<and>
       kept s (snd (case notify env obs s1 of
             (Inl e, s2) \<Rightarrow> (Inl e, s2)
           | (Inr u, s2) \<Rightarrow> if steps s2 = c then write_checkpoint env s2 else (Inr (), s2)))" for obs c
  proof -
    define r2 where "r2 = fst (notify env obs s1)"
    define s2 where "s2 = snd (notify env obs s1)"
    have no: "notify env obs s1 = (r2, s2)"
      by (simp add: r2_def s2_def)
    obtain es where es: "trace s2 = trace s1 @ es" "list_all notify_event es" "kept s1 s2"
      using notify_shape[of env obs s1] unfolding s2_def by blast
    have k2: "kept s s2"
      by (rule kept_trans[OF k1 es(3)])
    have c2: "clears ([Backend_run_until n] @ es) = []"
      using notify_events_project[OF es(2)] by (simp add: clears_Cons)
    have t2: "trace s2 = trace s @ ([Backend_run_until n] @ es)"
      using t1 es(1) by simp
    have c3: "clears ([Backend_run_until n] @ es @ [Backend_write_checkpoint]) = []"
      using notify_events_project[OF es(2)] by (simp add: clears_Cons)
    have t3: "trace (snd (write_checkpoint env s2)) = trace s @ ([Backend_run_until n] @ es @ [Backend_write_checkpoint])"
      and k3: "kept s (snd (write_checkpoint env s2))"
      using write_checkpoint_shape[of env s2] t2 kept_trans[OF k2] by simp_all
    show ?thesis
      unfolding no using t2 c2 k2 t3 c3 k3
      by (cases r2) auto
  qed
  show ?thesis
    unfolding loop_body_def Inr using base after
    by (simp add: Let_def n_def[symmetric] ru split: sum.splits)
qed

lemma main_loop_frame_aux:
  assumes "main_loop env s = Some y"
  shows "\<exists>es. trace (snd y) = trace s @ es \<and> clears es = [] \<and> kept s (snd y)"
proof (rule main_loop.raw_induct[where P = "\<lambda>env s y. \<exists>es. trace (snd y) = trace s @ es \<and> clears es = [] \<and> kept s (snd y)", OF _ assms])
  fix ml :: "'a env \<Rightarrow> 'a simulation \<Rightarrow> (exn \<times> 'a simulation) option" and env s y
  assume IH: "\<And>env s y. ml env s = Some y \<Longrightarrow>
      \<exists>es. trace (snd y) = trace s @ es \<and> clears es = [] \<and> kept s (snd y)"
    and step: "(case loop_body env s of (Inl e, s1) \<Rightarrow> Some (e, s1) | (Inr u, s1) \<Rightarrow> ml env s1) = Some y"
  obtain es1 where es1: "trace (snd (loop_body env s)) = trace s @ es1" "clears es1 = []"
      "kept s (snd (loop_body env s))"
    using loop_body_frame[of env s] by blast
  show "\<exists>es. trace (snd y) = trace s @ es \<and> clears es = [] \<and> kept s (snd y)"
  proof (cases "fst (loop_body env s)")
    case (Inl x)
    then have "loop_body env s = (Inl x, snd (loop_body env s))"
      by (metis prod.collapse)
    then have "snd y = snd (loop_body env s)"
      using step by (auto split: prod.splits)
    then show ?thesis
      using es1 by auto
  next
    case (Inr u)
    then have lb: "loop_body env s = (Inr u, snd (loop_body env s))"
      by (metis prod.collapse)
    then have "ml env (snd (loop_body env s)) = Some y"
      using step by (simp split: prod.splits)
    from IH[OF this] obtain es2 where es2: "trace (snd y) = trace (snd (loop_body env s)) @ es2"
        "clears es2 = []" "kept (snd (loop_body env s)) (snd y)"
      by blast
    have "trace (snd y) = trace s @ (es1 @ es2)"
      using es1(1) es2(1) by simp
    moreover have "clears (es1 @ es2) = []"
      using es1(2) es2(2) by simp
    moreover have "kept s (snd y)"
      by (rule kept_trans[OF es1(3) es2(3)])
    ultimately show ?thesis
      by blast
  qed
qed

lemma run_guarded_frame:
  assumes "run_guarded env s = Some y"
  shows "\<exists>es. trace (snd y) = trace s @ es \<and> clears es = [] \<and> kept s (snd y)"
proof -
  obtain es tl where i: "trace (snd (run_initial env s)) = trace s @ es @ tl"
      "list_all notify_event es" "clears tl = []" "kept s (snd (run_initial env s))"
    using run_initial_shape[of env s] by blast
  have ci: "clears (es @ tl) = []"
    using notify_events_project[OF i(2)] i(3) by simp
  show ?thesis
  proof (cases "fst (run_initial env s)")
    case (Inl e)
    then have "run_initial env s = (Inl e, snd (run_initial env s))"
      by (metis prod.collapse)
    then have "snd y = snd (run_initial env s)"
      using assms by (auto simp: run_guarded_def split: prod.splits)
    then show ?thesis
      using i(1,4) ci by (intro exI[of _ "es @ tl"]) simp
  next
    case (Inr u)
    then have "run_initial env s = (Inr u, snd (run_initial env s))"
      by (metis prod.collapse)
    then have "main_loop env (snd (run_initial env s)) = Some y"
      using assms by (simp add: run_guarded_def split: prod.splits)
    from main_loop_frame_aux[OF this] obtain es2 where
      es2: "trace (snd y) = trace (snd (run_initial env s)) @ es2" "clears es2 = []"
        "kept (snd (run_initial env s)) (snd y)"
      by blast
    have "trace (snd y) = trace s @ ((es @ tl) @ es2)"
      using i(1) es2(1) by simp
    moreover have "clears ((es @ tl) @ es2) = []"
      using ci es2(2) by simp
    moreover have "kept s (snd y)"
      by (rule kept_trans[OF i(4) es2(3)])
    ultimately show ?thesis
      by blast
  qed
qed

lemma due_have_params:
  assumes wf: "set (callback s) \<subseteq> dom (cbk_params s)"
  shows "set (spec_due env s) \<subseteq> dom (cbk_params (snd (run_until env n s)))"
proof -
  have "kept s (snd (run_until env n s))"
    using run_until_shape[of env n s] by simp
  then have "cbk_params (snd (run_until env n s)) = cbk_params s"
    by (simp add: kept_def)
  moreover have "set (spec_due env s) \<subseteq> set (callback s)"
    by (auto simp: spec_due_def)
  ultimately show ?thesis
    using wf by auto
qed

lemma loop_body_advance_raises:
  assumes wf: "set (callback s) \<subseteq> dom (cbk_params s)"
    and r1: "fst (run_until env (spec_next_step env s) s) = Inl e"
  shows "fst (loop_body env s) = Inl e \<and>
         new_events s (snd (loop_body env s)) = [Backend_run_until (spec_next_step env s)]"
proof -
  define s1 where "s1 = snd (run_until env (spec_next_step env s) s)"
  have ru: "run_until env (spec_next_step env s) s = (Inl e, s1)"
    using r1 by (simp add: s1_def prod_eq_iff)
  have lb: "loop_body env s = (Inl e, s1)"
    unfolding loop_body_unfold[OF wf] ru by simp
  have "trace s1 = trace s @ [Backend_run_until (spec_next_step env s)]"
    using run_until_shape[of env "spec_next_step env s" s] by (simp add: s1_def)
  then have "new_events s s1 = [Backend_run_until (spec_next_step env s)]"
    by (rule new_events_append)
  then show ?thesis
    by (simp add: lb)
qed

lemma loop_body_notify_raises:
  assumes wf: "set (callback s) \<subseteq> dom (cbk_params s)"
    and r1: "fst (run_until env (spec_next_step env s) s) = Inr ()"
    and r2: "fst (notify env (spec_due env s) (snd (run_until env (spec_next_step env s) s))) = Inl e"
  shows "fst (loop_body env s) = Inl e \<and>
         new_events s (snd (loop_body env s))
           = Backend_run_until (spec_next_step env s)
               # new_events (snd (run_until env (spec_next_step env s) s))
                   (snd (notify env (spec_due env s) (snd (run_until env (spec_next_step env s) s)))) \<and>
         list_all notify_event
           (new_events (snd (run_until env (spec_next_step env s) s))
              (snd (notify env (spec_due env s) (snd (run_until env (spec_next_step env s) s)))))"
proof -
  define s1 where "s1 = snd (run_until env (spec_next_step env s) s)"
  define s2 where "s2 = snd (notify env (spec_due env s) s1)"
  have ru: "run_until env (spec_next_step env s) s = (Inr (), s1)"
    using r1 by (simp add: s1_def prod_eq_iff)
  have no: "notify env (spec_due env s) s1 = (Inl e, s2)"
    using r2 by (simp add: s1_def s2_def prod_eq_iff)
  have lb: "loop_body env s = (Inl e, s2)"
    unfolding loop_body_unfold[OF wf] ru by (simp add: no)
  have t1: "trace s1 = trace s @ [Backend_run_until (spec_next_step env s)]"
    using run_until_shape[of env "spec_next_step env s" s] by (simp add: s1_def)
  obtain es where es: "trace s2 = trace s1 @ es" "list_all notify_event es"
    using notify_shape[of env "spec_due env s" s1] unfolding s2_def by blast
  have n1: "new_events s1 s2 = es"
    using es(1) by (rule new_events_append)
  have "trace s2 = trace s @ Backend_run_until (spec_next_step env s) # es"
    using t1 es(1) by simp
  then have "new_events s s2 = Backend_run_until (spec_next_step env s) # es"
    by (rule new_events_append)
  then show ?thesis
    unfolding s1_def[symmetric] s2_def[symmetric] using n1 es(2) by (simp add: lb)
qed

lemma loop_body_notify_returns:
  assumes wf: "set (callback s) \<subseteq> dom (cbk_params s)"
    and r1: "fst (run_until env (spec_next_step env s) s) = Inr ()"
    and r2: "fst (notify env (spec_due env s) (snd (run_until env (spec_next_step env s) s))) = Inr ()"
  shows "\<exists>es. list_all notify_event es \<and> called es = spec_due env s \<and>
         new_events s (snd (loop_body env s))
           = Backend_run_until (spec_next_step env s) # es
               @ (if spec_next_step env s = next_checkpoint env s then [Backend_write_checkpoint] else []) \<and>
         steps (snd (loop_body env s)) = spec_next_step env s"
proof -
  define s1 where "s1 = snd (run_until env (spec_next_step env s) s)"
  define s2 where "s2 = snd (notify env (spec_due env s) s1)"
  have ru: "run_until env (spec_next_step env s) s = (Inr (), s1)"
    using r1 by (simp add: s1_def prod_eq_iff)
  have no: "notify env (spec_due env s) s1 = (Inr (), s2)"
    using r2 by (simp add: s1_def s2_def prod_eq_iff)
  have lb: "loop_body env s =
      (if spec_next_step env s = next_checkpoint env s then write_checkpoint env s2 else (Inr (), s2))"
    unfolding loop_body_unfold[OF wf] ru by (simp add: no)
  have t1: "trace s1 = trace s @ [Backend_run_until (spec_next_step env s)]"
    and st1: "steps s1 = spec_next_step env s"
    using run_until_shape[of env "spec_next_step env s" s] r1 by (simp_all add: s1_def)
  obtain es where es: "trace s2 = trace s1 @ es" "list_all notify_event es"
      "called es = spec_due env s" "steps s2 = steps s1"
    using notify_shape[of env "spec_due env s" s1] r2 unfolding s2_def s1_def by blast
  have t2: "trace s2 = trace s @ Backend_run_until (spec_next_step env s) # es @ []"
    using t1 es(1) by simp
  have wc: "trace (snd (write_checkpoint env s2))
      = trace s @ Backend_run_until (spec_next_step env s) # es @ [Backend_write_checkpoint]"
    "steps (snd (write_checkpoint env s2)) = steps s2"
    using write_checkpoint_shape[of env s2] t2 by simp_all
  have "new_events s (snd (loop_body env s))
           = Backend_run_until (spec_next_step env s) # es
               @ (if spec_next_step env s = next_checkpoint env s then [Backend_write_checkpoint] else [])"
    by (rule new_events_append) (simp add: lb wc t2)
  moreover have "steps (snd (loop_body env s)) = spec_next_step env s"
    using wc(2) es(4) st1 by (simp add: lb)
  ultimately show ?thesis
    using es(2,3) by blast
qed

lemma loop_body_checkpoint_iff:
  assumes wf: "set (callback s) \<subseteq> dom (cbk_params s)"
  shows "Backend_write_checkpoint \<in> set (new_events s (snd (loop_body env s))) \<longleftrightarrow>
           spec_next_step env s = next_checkpoint env s \<and>
           fst (run_until env (spec_next_step env s) s) = Inr () \<and>
           fst (notify env (spec_due env s) (snd (run_until env (spec_next_step env s) s))) = Inr ()"
proof (cases "fst (run_until env (spec_next_step env s) s)")
  case (Inl e)
  then show ?thesis
    using loop_body_advance_raises[OF wf Inl] by simp
next
  case (Inr u)
  then have r1: "fst (run_until env (spec_next_step env s) s) = Inr ()"
    by simp
  show ?thesis
  proof (cases "fst (notify env (spec_due env s) (snd (run_until env (spec_next_step env s) s)))")
    case (Inl e)
    have "Backend_write_checkpoint \<notin> set (new_events s (snd (loop_body env s)))"
      using loop_body_notify_raises[OF wf r1 Inl] notify_events_project by fastforce
    then show ?thesis
      using Inl by simp
  next
    case (Inr v)
    then have r2: "fst (notify env (spec_due env s) (snd (run_until env (spec_next_step env s) s))) = Inr ()"
      by simp
    obtain es where es: "list_all notify_event es"
      "new_events s (snd (loop_body env s))
           = Backend_run_until (spec_next_step env s) # es
               @ (if spec_next_step env s = next_checkpoint env s then [Backend_write_checkpoint] else [])"
      using loop_body_notify_returns[OF wf r1 r2] by blast
    have "Backend_write_checkpoint \<notin> set es"
      using notify_events_project[OF es(1)] by simp
    then show ?thesis
      unfolding es(2) using r1 r2 by simp
  qed
qed

lemma loop_body_called_cases:
  assumes wf: "set (callback s) \<subseteq> dom (cbk_params s)"
  shows "(\<forall>e. fst (run_until env (spec_next_step env s) s) = Inl e \<longrightarrow>
            fst (loop_body env s) = Inl e \<and> called (new_events s (snd (loop_body env s))) = []) \<and>
         (fst (run_until env (spec_next_step env s) s) = Inr () \<longrightarrow>
          fst (notify env (spec_due env s) (snd (run_until env (spec_next_step env s) s))) = Inr () \<longrightarrow>
            called (new_events s (snd (loop_body env s))) = spec_due env s) \<and>
         (\<forall>e. fst (run_until env (spec_next_step env s) s) = Inr () \<longrightarrow>
            fst (notify env (spec_due env s) (snd (run_until env (spec_next_step env s) s))) = Inl e \<longrightarrow>
            fst (loop_body env s) = Inl e \<and>
            (\<exists>pre c post p. spec_due env s = pre @ c # post \<and>
               called (new_events s (snd (loop_body env s))) = pre @ [c] \<and>
               fst (notify env pre (snd (run_until env (spec_next_step env s) s))) = Inr () \<and>
               cbk_params s c = Some p \<and>
               fst (callback_call env c (args p) (kwargs p)
                     (log_event (Log_debug ''notify %s at step %d'')
                        (snd (notify env pre (snd (run_until env (spec_next_step env s) s)))))) = Inl e))"
proof (intro conjI allI impI)
  fix e
  assume "fst (run_until env (spec_next_step env s) s) = Inl e"
  from loop_body_advance_raises[OF wf this]
  show "fst (loop_body env s) = Inl e" "called (new_events s (snd (loop_body env s))) = []"
    by (simp_all add: called_Cons called_Nil)
next
  assume r1: "fst (run_until env (spec_next_step env s) s) = Inr ()"
    and r2: "fst (notify env (spec_due env s) (snd (run_until env (spec_next_step env s) s))) = Inr ()"
  obtain es where es: "called es = spec_due env s"
      "new_events s (snd (loop_body env s))
           = Backend_run_until (spec_next_step env s) # es
               @ (if spec_next_step env s = next_checkpoint env s then [Backend_write_checkpoint] else [])"
    using loop_body_notify_returns[OF wf r1 r2] by blast
  show "called (new_events s (snd (loop_body env s))) = spec_due env s"
    unfolding es(2) using es(1) by (simp add: called_Cons called_append called_Nil)
next
  fix e
  assume r1: "fst (run_until env (spec_next_step env s) s) = Inr ()"
    and r2: "fst (notify env (spec_due env s) (snd (run_until env (spec_next_step env s) s))) = Inl e"
  define s1 where "s1 = snd (run_until env (spec_next_step env s) s)"
  note lb = loop_body_notify_raises[OF wf r1 r2]
  show "fst (loop_body env s) = Inl e"
    using lb by simp
  have cp: "cbk_params s1 = cbk_params s"
    using run_until_shape[of env "spec_next_step env s" s] by (simp add: kept_def s1_def)
  obtain pre c post p where nr: "spec_due env s = pre @ c # post" "fst (notify env pre s1) = Inr ()"
     "cbk_params s1 c = Some p"
     "fst (callback_call env c (args p) (kwargs p)
            (log_event (Log_debug ''notify %s at step %d'') (snd (notify env pre s1)))) = Inl e"
     "called (new_events s1 (snd (notify env (spec_due env s) s1))) = pre @ [c]"
    using notify_raises[OF due_have_params[OF wf, of env "spec_next_step env s"], of env e] r2
    unfolding s1_def by blast
  have "called (new_events s (snd (loop_body env s))) = pre @ [c]"
    using lb nr(5) unfolding s1_def by (simp add: called_Cons)
  then show "\<exists>pre c post p. spec_due env s = pre @ c # post \<and>
               called (new_events s (snd (loop_body env s))) = pre @ [c] \<and>
               fst (notify env pre (snd (run_until env (spec_next_step env s) s))) = Inr () \<and>
               cbk_params s c = Some p \<and>
               fst (callback_call env c (args p) (kwargs p)
                     (log_event (Log_debug ''notify %s at step %d'')
                        (snd (notify env pre (snd (run_until env (spec_next_step env s) s)))))) = Inl e"
    using nr(1,2,3,4) cp unfolding s1_def by auto
qed

text \<open>
  C4, as the specification has it: in every pass of the main loop exactly the observers
  whose trigger is the minimum are notified, all of those that tie and none skipped. The
  notification of a batch stops at the first observer that raises. On an instance at
  step 5 whose writer and two targeters are all due at step 10, the first targeter
  raises the end of the run and the second, \<^verbatim>\<open>target_steps\<close>, is not called.
\<close>

theorem tied_observer_skipped_counterexample:
  "callback two_targets = [writer, target_rmsd, target_steps] \<and>
   trigger rmsd_reached_env two_targets writer = 10 \<and>
   trigger rmsd_reached_env two_targets target_rmsd = 10 \<and>
   trigger rmsd_reached_env two_targets target_steps = 10 \<and>
   next_checkpoint rmsd_reached_env two_targets = 10 \<and>
   spec_next_step rmsd_reached_env two_targets = 10 \<and>
   spec_due rmsd_reached_env two_targets = [writer, target_rmsd, target_steps] \<and>
   fst (loop_body rmsd_reached_env two_targets) = Inl SimulationEnd \<and>
   steps (snd (loop_body rmsd_reached_env two_targets)) = 10 \<and>
   advances (new_events two_targets (snd (loop_body rmsd_reached_env two_targets))) = [10] \<and>
   called (new_events two_targets (snd (loop_body rmsd_reached_env two_targets)))
     = [writer, target_rmsd] \<and>
   target_steps \<notin> set (called (new_events two_targets (snd (loop_body rmsd_reached_env two_targets))))"
  by code_simp

text \<open>
  C4, amended: in one pass of the main loop, on an instance whose registered observers
  all have their parameters, the backend is asked to advance once, to the minimum of the
  observers' triggers and the checkpoint trigger. When that call raises, the pass ends
  with its exception and no observer is called. Otherwise the observers whose trigger
  is that minimum are called in the order of the registry, up to and including the
  first one that raises: when all of them return, every one of them has been called,
  ties included, and if the pass completes the step count is that minimum; when one of
  them raises, the pass ends with its exception, the observers called are those before
  it, which returned, and it, and those after it are not called.
\<close>

theorem loop_body_notifies_in_order:
  assumes "set (callback s) \<subseteq> dom (cbk_params s)"
  shows "advances (new_events s (snd (loop_body env s))) = [spec_next_step env s] \<and>
         prefix (called (new_events s (snd (loop_body env s)))) (spec_due env s) \<and>
         (fst (loop_body env s) = Inr () \<longrightarrow>
            steps (snd (loop_body env s)) = spec_next_step env s \<and>
            called (new_events s (snd (loop_body env s))) = spec_due env s) \<and>
         (\<forall>e. fst (run_until env (spec_next_step env s) s) = Inl e \<longrightarrow>
            fst (loop_body env s) = Inl e \<and> called (new_events s (snd (loop_body env s))) = []) \<and>
         (fst (run_until env (spec_next_step env s) s) = Inr () \<longrightarrow>
          fst (notify env (spec_due env s) (snd (run_until env (spec_next_step env s) s))) = Inr () \<longrightarrow>
            called (new_events s (snd (loop_body env s))) = spec_due env s) \<and>
         (\<forall>e. fst (run_until env (spec_next_step env s) s) = Inr () \<longrightarrow>
            fst (notify env (spec_due env s) (snd (run_until env (spec_next_step env s) s))) = Inl e \<longrightarrow>
            fst (loop_body env s) = Inl e \<and>
            (\<exists>pre c post p. spec_due env s = pre @ c # post \<and>
               called (new_events s (snd (loop_body env s))) = pre @ [c] \<and>
               fst (notify env pre (snd (run_until env (spec_next_step env s) s))) = Inr () \<and>
               cbk_params s c = Some p \<and>
               fst (callback_call env c (args p) (kwargs p)
                     (log_event (Log_debug ''notify %s at step %d'')
                        (snd (notify env pre (snd (run_until env (spec_next_step env s) s)))))) = Inl e))"
proof -
  obtain es tl where sh:
      "trace (snd (loop_body env s)) = trace s @ Backend_run_until (spec_next_step env s) # es @ tl"
      "list_all notify_event es" "prefix (called es) (spec_due env s)"
      "tl = [] \<or> tl = [Backend_write_checkpoint]"
      "fst (loop_body env s) = Inr () \<longrightarrow>
         steps (snd (loop_body env s)) = spec_next_step env s \<and> called es = spec_due env s \<and>
         (tl \<noteq> [] \<longleftrightarrow> spec_next_step env s = next_checkpoint env s)"
    using loop_body_shape[OF assms, of env] by blast
  have ne: "new_events s (snd (loop_body env s)) = Backend_run_until (spec_next_step env s) # es @ tl"
    using sh(1) by (rule new_events_append)
  have tl: "advances tl = []" "called tl = []"
    using sh(4) by (auto simp: advances_Cons called_Cons)
  have a: "advances (Backend_run_until (spec_next_step env s) # es @ tl) = [spec_next_step env s]"
    using notify_events_project[OF sh(2)] tl by (simp add: advances_Cons)
  have c: "called (Backend_run_until (spec_next_step env s) # es @ tl) = called es"
    using tl by (simp add: called_Cons)
  have first: "advances (new_events s (snd (loop_body env s))) = [spec_next_step env s] \<and>
         prefix (called (new_events s (snd (loop_body env s)))) (spec_due env s) \<and>
         (fst (loop_body env s) = Inr () \<longrightarrow>
            steps (snd (loop_body env s)) = spec_next_step env s \<and>
            called (new_events s (snd (loop_body env s))) = spec_due env s)"
    unfolding ne a c using sh(3,5) by simp
  note rest = loop_body_called_cases[OF assms, of env]
  show ?thesis
    apply (rule conjI)
     apply (rule conjunct1[OF first])
    apply (rule conjI)
     apply (rule conjunct1[OF conjunct2[OF first]])
    apply (rule conjI)
     apply (rule conjunct2[OF conjunct2[OF first]])
    apply (rule rest)
    done
qed

theorem loop_body_notifies_in_order_witness:
  "set (callback tied) \<subseteq> dom (cbk_params tied) \<and>
   fst (loop_body example_env tied) = Inr () \<and>
   advances (new_events tied (snd (loop_body example_env tied))) = [5] \<and>
   steps (snd (loop_body example_env tied)) = 5 \<and>
   called (new_events tied (snd (loop_body example_env tied))) = [plotter, writer] \<and>
   set (callback tied_at_5) \<subseteq> dom (cbk_params tied_at_5) \<and>
   fst (run_until example_env 10 tied_at_5) = Inr () \<and>
   fst (notify example_env [plotter, writer, target_steps] (snd (run_until example_env 10 tied_at_5)))
     = Inl SimulationEnd \<and>
   fst (loop_body example_env tied_at_5) = Inl SimulationEnd \<and>
   advances (new_events tied_at_5 (snd (loop_body example_env tied_at_5))) = [10] \<and>
   (\<exists>pre c post. [plotter, writer, target_steps] = pre @ c # post \<and>
      called (new_events tied_at_5 (snd (loop_body example_env tied_at_5))) = pre @ [c]) \<and>
   called (new_events tied_at_5 (snd (loop_body example_env tied_at_5)))
     = [plotter, writer, target_steps]"
proof -
  have cb: "callback tied = [plotter, writer, target_steps]"
    by code_simp
  have "cbk_params tied plotter \<noteq> None" "cbk_params tied writer \<noteq> None"
       "cbk_params tied target_steps \<noteq> None"
    by (simp_all add: tied_def fresh_def Simulation_def add_def remove_def plotter_def writer_def
          target_steps_def Let_def)
  then have h: "set (callback tied) \<subseteq> dom (cbk_params tied)"
    unfolding cb by (simp add: domIff)
  have h5: "set (callback tied_at_5) \<subseteq> dom (cbk_params tied_at_5)"
    using h by (simp add: tied_at_5_def)
  have r: "fst (loop_body example_env tied) = Inr ()"
    by code_simp
  have n: "spec_next_step example_env tied = 5"
    by code_simp
  have d: "spec_due example_env tied = [plotter, writer]"
    by code_simp
  have n5: "spec_next_step example_env tied_at_5 = 10"
    by code_simp
  have d5: "spec_due example_env tied_at_5 = [plotter, writer, target_steps]"
    by code_simp
  have a5: "fst (run_until example_env 10 tied_at_5) = Inr ()"
    by code_simp
  have b5: "fst (notify example_env [plotter, writer, target_steps]
                  (snd (run_until example_env 10 tied_at_5))) = Inl SimulationEnd"
    by code_simp
  have c5: "called (new_events tied_at_5 (snd (loop_body example_env tied_at_5)))
     = [plotter, writer, target_steps]"
    by code_simp
  note t = loop_body_notifies_in_order [OF h, of example_env]
  note t5 = loop_body_notifies_in_order [OF h5, of example_env]
  have p1: "advances (new_events tied (snd (loop_body example_env tied))) = [5] \<and>
      steps (snd (loop_body example_env tied)) = 5 \<and>
      called (new_events tied (snd (loop_body example_env tied))) = [plotter, writer]"
    using t r n d by simp
  have p2: "advances (new_events tied_at_5 (snd (loop_body example_env tied_at_5))) = [10]"
    using t5 n5 by simp
  have "\<forall>e. fst (notify example_env [plotter, writer, target_steps]
                  (snd (run_until example_env 10 tied_at_5))) = Inl e \<longrightarrow>
            fst (loop_body example_env tied_at_5) = Inl e \<and>
            (\<exists>pre c post. [plotter, writer, target_steps] = pre @ c # post \<and>
               called (new_events tied_at_5 (snd (loop_body example_env tied_at_5))) = pre @ [c])"
    using t5 a5 unfolding n5 d5 by blast
  then have p3: "fst (loop_body example_env tied_at_5) = Inl SimulationEnd \<and>
            (\<exists>pre c post. [plotter, writer, target_steps] = pre @ c # post \<and>
               called (new_events tied_at_5 (snd (loop_body example_env tied_at_5))) = pre @ [c])"
    using b5 by blast
  show ?thesis
    using h h5 r p1 p2 p3 a5 b5 c5 by blast
qed

section \<open>Termination\<close>

lemma run_handlers_end:
  "fst (write_checkpoint env s) = Inr () \<Longrightarrow>
     fst (run_handlers env now SimulationEnd s) = Inr () \<and>
     trace (snd (run_handlers env now SimulationEnd s))
       = trace (snd (report_end env now (snd (write_checkpoint env s)))) @ [Log_info ''goodbye''] \<and>
     (\<exists>es. list_all log_record es \<and>
        trace (snd (run_handlers env now SimulationEnd s))
          = trace s @ Backend_write_checkpoint # Log_info ''simulation ended on: %s'' # es
              @ [Log_info ''goodbye''])"
proof -
  assume ok: "fst (write_checkpoint env s) = Inr ()"
  define sc where "sc = snd (write_checkpoint env s)"
  have wc: "write_checkpoint env s = (Inr (), sc)"
    using ok unfolding sc_def by (metis prod.collapse)
  have tc: "trace sc = trace s @ [Backend_write_checkpoint]"
    using write_checkpoint_shape[of env s] by (simp add: sc_def)
  obtain es where es: "trace (snd (report_end env now sc))
      = trace sc @ Log_info ''simulation ended on: %s'' # es" "list_all log_record es"
    using report_end_shape[of env now sc] by blast
  have rh: "run_handlers env now SimulationEnd s
      = (Inr (), log_event (Log_info ''goodbye'') (snd (report_end env now sc)))"
    by (simp add: run_handlers_def wc)
  show ?thesis
    unfolding rh sc_def[symmetric] using es tc
    by (simp add: log_event_def)
qed

lemma run_handlers_end_failed:
  "fst (write_checkpoint env s) \<noteq> Inr () \<Longrightarrow>
     fst (run_handlers env now SimulationEnd s) = fst (write_checkpoint env s) \<and>
     trace (snd (run_handlers env now SimulationEnd s))
       = trace s @ [Backend_write_checkpoint, Log_info ''goodbye'']"
proof -
  assume bad: "fst (write_checkpoint env s) \<noteq> Inr ()"
  define sc where "sc = snd (write_checkpoint env s)"
  obtain x where x: "fst (write_checkpoint env s) = Inl x"
    using bad by (cases "fst (write_checkpoint env s)") auto
  have wc: "write_checkpoint env s = (Inl x, sc)"
    using x unfolding sc_def by (metis prod.collapse)
  have tc: "trace sc = trace s @ [Backend_write_checkpoint]"
    using write_checkpoint_shape[of env s] by (simp add: sc_def)
  show ?thesis
    using tc by (simp add: run_handlers_def wc log_event_def)
qed

lemma run_handlers_interrupt:
  "run_handlers env now KeyboardInterrupt s = (Inr (), s\<lparr>trace := trace s @ [Log_info ''goodbye'']\<rparr>)"
  by (simp add: run_handlers_def log_event_def)

lemma run_handlers_failure:
  "e \<noteq> SimulationEnd \<Longrightarrow> e \<noteq> KeyboardInterrupt \<Longrightarrow>
     run_handlers env now e s
       = (Inl e, s\<lparr>trace := trace s @ [Log_error ''simulation failed'', Log_info ''goodbye'']\<rparr>)"
  by (simp add: run_handlers_def log_event_def)

lemma run_handlers_frame:
  "\<exists>es. trace (snd (run_handlers env now e s)) = trace s @ es \<and> clears es = [] \<and>
     last es = Log_info ''goodbye'' \<and> es \<noteq> [] \<and> kept s (snd (run_handlers env now e s))"
proof -
  define sc where "sc = snd (write_checkpoint env s)"
  have tc: "trace sc = trace s @ [Backend_write_checkpoint]" and kc: "kept s sc"
    using write_checkpoint_shape[of env s] by (simp_all add: sc_def)
  obtain es where es: "trace (snd (report_end env now sc))
      = trace sc @ Log_info ''simulation ended on: %s'' # es" "list_all log_record es"
      "same_but_trace sc (snd (report_end env now sc))"
    using report_end_shape[of env now sc] by blast
  have kr: "kept s (snd (report_end env now sc))"
    using kc es(3) kept_trans by (auto simp: same_but_trace_def)
  have ce: "clears es = []"
    using log_records_project[OF es(2)] by simp
  show ?thesis
  proof (cases "e = SimulationEnd")
    case True
    show ?thesis
    proof (cases "fst (write_checkpoint env s)")
      case (Inl x)
      then have wc: "write_checkpoint env s = (Inl x, sc)"
        unfolding sc_def by (metis prod.collapse)
      show ?thesis
        using True tc kc
        by (intro exI[of _ "[Backend_write_checkpoint, Log_info ''goodbye'']"])
           (simp add: run_handlers_def wc log_event_def clears_Cons kept_def)
    next
      case (Inr u)
      then have wc: "write_checkpoint env s = (Inr (), sc)"
        unfolding sc_def by (metis prod.collapse old.unit.exhaust)
      show ?thesis
        using True tc es(1) kr ce
        by (intro exI[of _ "Backend_write_checkpoint # Log_info ''simulation ended on: %s'' # es @ [Log_info ''goodbye'']"])
           (simp add: run_handlers_def wc log_event_def clears_Cons kept_def)
    qed
  next
    case False
    then show ?thesis
      by (cases "e = KeyboardInterrupt")
         (auto simp: run_handlers_def log_event_def clears_Cons kept_def)
  qed
qed

lemma run_unfold:
  assumes "fst (run_prologue env t0 n s) = Inr ()"
    and "run_guarded env (snd (run_prologue env t0 n s)) = Some (e, s2)"
  shows "run env t0 t1 n s = Some (run_handlers env t1 e s2)"
  using assms by (cases "run_prologue env t0 n s") (auto simp: run_def)

lemma run_frame:
  assumes "run env t0 t1 n s = Some (r, s')"
  shows "\<exists>es. trace s' = trace (snd (run_prologue env t0 n s)) @ es \<and> clears es = [] \<and>
     max_steps s' = max_steps (snd (run_prologue env t0 n s)) \<and>
     callback s' = callback (snd (run_prologue env t0 n s))"
proof (cases "fst (run_prologue env t0 n s)")
  case (Inl e)
  then have "s' = snd (run_prologue env t0 n s)"
    using assms by (cases "run_prologue env t0 n s") (auto simp: run_def)
  then show ?thesis
    by simp
next
  case (Inr u)
  define s1 where "s1 = snd (run_prologue env t0 n s)"
  have p: "run_prologue env t0 n s = (Inr (), s1)"
    using Inr unfolding s1_def by (cases "run_prologue env t0 n s") auto
  obtain y where g: "run_guarded env s1 = Some y" and h: "(r, s') = run_handlers env t1 (fst y) (snd y)"
    using assms unfolding run_def p by (auto split: option.splits)
  obtain es1 where es1: "trace (snd y) = trace s1 @ es1" "clears es1 = []" "kept s1 (snd y)"
    using run_guarded_frame[OF g] by blast
  obtain es2 where es2: "trace (snd (run_handlers env t1 (fst y) (snd y))) = trace (snd y) @ es2"
      "clears es2 = []" "kept (snd y) (snd (run_handlers env t1 (fst y) (snd y)))"
    using run_handlers_frame[of env t1 "fst y" "snd y"] by blast
  have s': "s' = snd (run_handlers env t1 (fst y) (snd y))"
    using h by (metis snd_conv)
  have k: "kept s1 s'"
    unfolding s' by (rule kept_trans[OF es1(3) es2(3)])
  have "trace s' = trace s1 @ (es1 @ es2)"
    unfolding s' using es1(1) es2(1) by simp
  moreover have "clears (es1 @ es2) = []"
    using es1(2) es2(2) by simp
  ultimately show ?thesis
    unfolding s1_def[symmetric] using k by (intro exI[of _ "es1 @ es2"]) (simp add: kept_def)
qed

text \<open>
  C6, as the specification has it: in the main loop a checkpoint is written exactly when
  the step reached is the checkpoint trigger. The checkpoint comes after the
  notifications and is not reached when one of them raises. On the instance with two
  observers every 5 steps and a checkpoint every 5 steps, the user interrupts while the
  writer runs at step 5: the step reached is the checkpoint trigger, no checkpoint is
  written in that pass, and the whole run returns without any checkpoint.
\<close>

theorem checkpoint_skipped_counterexample:
  "trigger interrupting_env tied writer = 5 \<and>
   next_checkpoint interrupting_env tied = 5 \<and>
   spec_next_step interrupting_env tied = 5 \<and>
   fst (loop_body interrupting_env tied) = Inl KeyboardInterrupt \<and>
   steps (snd (loop_body interrupting_env tied)) = 5 \<and>
   called (new_events tied (snd (loop_body interrupting_env tied))) = [plotter, writer] \<and>
   checkpoints (new_events tied (snd (loop_body interrupting_env tied))) = 0 \<and>
   returned (run interrupting_env 0 1 (Some 10) tied) \<and>
   fst (the (run interrupting_env 0 1 (Some 10) tied)) = Inr () \<and>
   steps (snd (the (run interrupting_env 0 1 (Some 10) tied))) = 5 \<and>
   advances (trace (snd (the (run interrupting_env 0 1 (Some 10) tied)))) = [5] \<and>
   checkpoints (trace (snd (the (run interrupting_env 0 1 (Some 10) tied)))) = 0"
  by code_simp

text \<open>
  C6, amended: in one pass of the main loop, on an instance whose registered observers
  all have their parameters, a checkpoint is asked of the backend exactly when the step
  reached is the checkpoint trigger, the backend has advanced and every observer due
  has returned; it is then asked once, as the last thing, after all observers due have
  been called, and the step count is the checkpoint trigger. In every other pass no
  checkpoint is asked, also when an observer due at the checkpoint trigger raises,
  the end-of-run signal included. When the guarded part of \<^verbatim>\<open>run\<close> ends with the
  end-of-run signal, the first thing \<^verbatim>\<open>run\<close> does is one more checkpoint, the only
  one from there on.
\<close>

theorem checkpoint_after_notifications:
  assumes "set (callback s) \<subseteq> dom (cbk_params s)"
  shows "(Backend_write_checkpoint \<in> set (new_events s (snd (loop_body env s))) \<longrightarrow>
            spec_next_step env s = next_checkpoint env s \<and>
            called (new_events s (snd (loop_body env s))) = spec_due env s \<and>
            last (new_events s (snd (loop_body env s))) = Backend_write_checkpoint \<and>
            checkpoints (new_events s (snd (loop_body env s))) = 1 \<and>
            steps (snd (loop_body env s)) = spec_next_step env s) \<and>
         (Backend_write_checkpoint \<in> set (new_events s (snd (loop_body env s))) \<longleftrightarrow>
            spec_next_step env s = next_checkpoint env s \<and>
            fst (run_until env (spec_next_step env s) s) = Inr () \<and>
            fst (notify env (spec_due env s) (snd (run_until env (spec_next_step env s) s))) = Inr ()) \<and>
         checkpoints (new_events s (snd (loop_body env s)))
           = (if spec_next_step env s = next_checkpoint env s \<and>
                 fst (run_until env (spec_next_step env s) s) = Inr () \<and>
                 fst (notify env (spec_due env s) (snd (run_until env (spec_next_step env s) s))) = Inr ()
              then 1 else 0) \<and>
         (fst (run_prologue env t0 n s0) = Inr () \<longrightarrow>
          run_guarded env (snd (run_prologue env t0 n s0)) = Some (SimulationEnd, s2) \<longrightarrow>
            (\<exists>r s'. run env t0 t1 n s0 = Some (r, s') \<and>
               hd (new_events s2 s') = Backend_write_checkpoint \<and>
               checkpoints (new_events s2 s') = 1))"
proof -
  have iff: "Backend_write_checkpoint \<in> set (new_events s (snd (loop_body env s))) \<longleftrightarrow>
            spec_next_step env s = next_checkpoint env s \<and>
            fst (run_until env (spec_next_step env s) s) = Inr () \<and>
            fst (notify env (spec_due env s) (snd (run_until env (spec_next_step env s) s))) = Inr ()"
    by (rule loop_body_checkpoint_iff[OF assms])
  have l1: "spec_next_step env s = next_checkpoint env s \<and>
            called (new_events s (snd (loop_body env s))) = spec_due env s \<and>
            last (new_events s (snd (loop_body env s))) = Backend_write_checkpoint \<and>
            checkpoints (new_events s (snd (loop_body env s))) = 1 \<and>
            steps (snd (loop_body env s)) = spec_next_step env s"
    if "Backend_write_checkpoint \<in> set (new_events s (snd (loop_body env s)))"
  proof -
    note cond = iffD1[OF iff that]
    note c = conjunct1[OF cond]
    note r1 = conjunct1[OF conjunct2[OF cond]]
    note r2 = conjunct2[OF conjunct2[OF cond]]
    obtain es where es: "list_all notify_event es" "called es = spec_due env s"
      "new_events s (snd (loop_body env s))
           = Backend_run_until (spec_next_step env s) # es
               @ (if spec_next_step env s = next_checkpoint env s then [Backend_write_checkpoint] else [])"
      "steps (snd (loop_body env s)) = spec_next_step env s"
      using loop_body_notify_returns[OF assms r1 r2] by blast
    have ne: "new_events s (snd (loop_body env s))
           = Backend_run_until (spec_next_step env s) # es @ [Backend_write_checkpoint]"
      using es(3) c by simp
    have ce: "checkpoints es = 0"
      using notify_events_project[OF es(1)] by simp
    have ca: "called (Backend_run_until (spec_next_step env s) # es @ [Backend_write_checkpoint])
        = spec_due env s"
      by (simp add: called_Cons called_append called_Nil es(2))
    have la: "last (Backend_run_until (spec_next_step env s) # es @ [Backend_write_checkpoint])
        = Backend_write_checkpoint"
      by simp
    have cp: "checkpoints (Backend_run_until (spec_next_step env s) # es @ [Backend_write_checkpoint]) = 1"
      by (simp add: checkpoints_Cons checkpoints_append checkpoints_Nil ce)
    show ?thesis
      unfolding ne
      apply (intro conjI)
          apply (rule c)
         apply (rule ca)
        apply (rule la)
       apply (rule cp)
      apply (rule es(4))
      done
  qed
  have cnt: "checkpoints (new_events s (snd (loop_body env s)))
           = (if spec_next_step env s = next_checkpoint env s \<and>
                 fst (run_until env (spec_next_step env s) s) = Inr () \<and>
                 fst (notify env (spec_due env s) (snd (run_until env (spec_next_step env s) s))) = Inr ()
              then 1 else 0)"
  proof (cases "Backend_write_checkpoint \<in> set (new_events s (snd (loop_body env s)))")
    case True
    have one: "checkpoints (new_events s (snd (loop_body env s))) = 1"
      using l1[OF True] by blast
    note cond = iffD1[OF iff True]
    show ?thesis
      unfolding one by (simp only: if_P[OF cond])
  next
    case False
    then have "filter (\<lambda>e. e = Backend_write_checkpoint) (new_events s (snd (loop_body env s))) = []"
      by (auto simp: filter_empty_conv)
    then have zero: "checkpoints (new_events s (snd (loop_body env s))) = 0"
      by (simp add: checkpoints_def)
    have ncond: "\<not> (spec_next_step env s = next_checkpoint env s \<and>
            fst (run_until env (spec_next_step env s) s) = Inr () \<and>
            fst (notify env (spec_due env s) (snd (run_until env (spec_next_step env s) s))) = Inr ())"
      using False iffD2[OF iff] by blast
    show ?thesis
      unfolding zero by (simp only: if_not_P[OF ncond])
  qed
  have final: "\<exists>r s'. run env t0 t1 n s0 = Some (r, s') \<and>
               hd (new_events s2 s') = Backend_write_checkpoint \<and>
               checkpoints (new_events s2 s') = 1"
    if p: "fst (run_prologue env t0 n s0) = Inr ()"
      and g: "run_guarded env (snd (run_prologue env t0 n s0)) = Some (SimulationEnd, s2)"
  proof -
    have r: "run env t0 t1 n s0 = Some (run_handlers env t1 SimulationEnd s2)"
      by (rule run_unfold[OF p g])
    have "\<exists>es. list_all log_record es \<and>
        trace (snd (run_handlers env t1 SimulationEnd s2)) = trace s2 @ Backend_write_checkpoint # es"
    proof (cases "fst (write_checkpoint env s2) = Inr ()")
      case True
      then obtain es where "list_all log_record es"
        "trace (snd (run_handlers env t1 SimulationEnd s2))
          = trace s2 @ Backend_write_checkpoint # Log_info ''simulation ended on: %s'' # es
              @ [Log_info ''goodbye'']"
        using run_handlers_end[of env s2 t1] by blast
      then show ?thesis
        by (intro exI[of _ "Log_info ''simulation ended on: %s'' # es @ [Log_info ''goodbye'']"])
           (simp add: log_record_def)
    next
      case False
      then show ?thesis
        using run_handlers_end_failed[of env s2 t1]
        by (intro exI[of _ "[Log_info ''goodbye'']"]) (simp add: log_record_def)
    qed
    then obtain es where es: "list_all log_record es"
        "trace (snd (run_handlers env t1 SimulationEnd s2)) = trace s2 @ Backend_write_checkpoint # es"
      by blast
    have "new_events s2 (snd (run_handlers env t1 SimulationEnd s2)) = Backend_write_checkpoint # es"
      using es(2) by (rule new_events_append)
    moreover have "checkpoints (Backend_write_checkpoint # es) = 1"
      using log_records_project[OF es(1)] by (simp add: checkpoints_Cons)
    ultimately show ?thesis
      using r by (intro exI[of _ "fst (run_handlers env t1 SimulationEnd s2)"]
          exI[of _ "snd (run_handlers env t1 SimulationEnd s2)"]) simp
  qed
  show ?thesis
    apply (rule conjI)
     apply (rule impI)
     apply (erule l1)
    apply (rule conjI)
     apply (rule iff)
    apply (rule conjI)
     apply (rule cnt)
    apply (intro impI)
    apply (erule (1) final)
    done
qed

theorem checkpoint_after_notifications_witness:
  "set (callback tied) \<subseteq> dom (cbk_params tied) \<and>
   fst (run_until example_env 5 tied) = Inr () \<and>
   fst (notify example_env [plotter, writer] (snd (run_until example_env 5 tied))) = Inr () \<and>
   spec_next_step example_env tied = 5 \<and>
   next_checkpoint example_env tied = 5 \<and>
   Backend_write_checkpoint \<in> set (new_events tied (snd (loop_body example_env tied))) \<and>
   last (new_events tied (snd (loop_body example_env tied))) = Backend_write_checkpoint \<and>
   called (new_events tied (snd (loop_body example_env tied))) = [plotter, writer] \<and>
   checkpoints (new_events tied (snd (loop_body example_env tied))) = 1 \<and>
   steps (snd (loop_body example_env tied)) = 5 \<and>
   set (callback tied_at_5) \<subseteq> dom (cbk_params tied_at_5) \<and>
   spec_next_step example_env tied_at_5 = 10 \<and>
   next_checkpoint example_env tied_at_5 = 10 \<and>
   fst (notify example_env [plotter, writer, target_steps] (snd (run_until example_env 10 tied_at_5)))
     = Inl SimulationEnd \<and>
   Backend_write_checkpoint \<notin> set (new_events tied_at_5 (snd (loop_body example_env tied_at_5))) \<and>
   checkpoints (new_events tied_at_5 (snd (loop_body example_env tied_at_5))) = 0 \<and>
   fst (run_prologue example_env 0 (Some 10) ready) = Inr () \<and>
   fst (the (run_guarded example_env (snd (run_prologue example_env 0 (Some 10) ready)))) = SimulationEnd \<and>
   (\<exists>r s'. run example_env 0 1 (Some 10) ready = Some (r, s') \<and>
      hd (new_events (snd (the (run_guarded example_env (snd (run_prologue example_env 0 (Some 10) ready))))) s')
        = Backend_write_checkpoint)"
proof -
  have cb: "callback tied = [plotter, writer, target_steps]"
    by code_simp
  have "cbk_params tied plotter \<noteq> None" "cbk_params tied writer \<noteq> None"
       "cbk_params tied target_steps \<noteq> None"
    by (simp_all add: tied_def fresh_def Simulation_def add_def remove_def plotter_def writer_def
          target_steps_def Let_def)
  then have h: "set (callback tied) \<subseteq> dom (cbk_params tied)"
    unfolding cb by (simp add: domIff)
  have h5: "set (callback tied_at_5) \<subseteq> dom (cbk_params tied_at_5)"
    using h by (simp add: tied_at_5_def)
  have n: "spec_next_step example_env tied = 5" and c: "next_checkpoint example_env tied = 5"
    and d: "spec_due example_env tied = [plotter, writer]"
    by code_simp+
  have a: "fst (run_until example_env 5 tied) = Inr ()"
    and b: "fst (notify example_env [plotter, writer] (snd (run_until example_env 5 tied))) = Inr ()"
    by code_simp+
  have n5: "spec_next_step example_env tied_at_5 = 10" and c5: "next_checkpoint example_env tied_at_5 = 10"
    and d5: "spec_due example_env tied_at_5 = [plotter, writer, target_steps]"
    by code_simp+
  have b5: "fst (notify example_env [plotter, writer, target_steps]
                  (snd (run_until example_env 10 tied_at_5))) = Inl SimulationEnd"
    by code_simp
  have p: "fst (run_prologue example_env 0 (Some 10) ready) = Inr ()"
    by code_simp
  define G where "G = run_guarded example_env (snd (run_prologue example_env 0 (Some 10) ready))"
  have "case run_guarded example_env (snd (run_prologue example_env 0 (Some 10) ready)) of
              None \<Rightarrow> False | Some y \<Rightarrow> fst y = SimulationEnd"
    by code_simp
  then obtain s2 where g: "G = Some (SimulationEnd, s2)"
    unfolding G_def[symmetric] by (cases G) auto
  note t = checkpoint_after_notifications [OF h, of example_env 0 "Some 10" ready s2 1]
  note t5 = checkpoint_after_notifications [OF h5, of example_env 0 "Some 10" ready s2 1]
  note iff = conjunct1[OF conjunct2[OF t]]
  note iff5 = conjunct1[OF conjunct2[OF t5]]
  note cnt5 = conjunct1[OF conjunct2[OF conjunct2[OF t5]]]
  note fin = conjunct2[OF conjunct2[OF conjunct2[OF t]]]
  have q1: "\<exists>r s'. run example_env 0 1 (Some 10) ready = Some (r, s') \<and>
      hd (new_events s2 s') = Backend_write_checkpoint"
    using fin p g unfolding G_def by blast
  have q2: "Backend_write_checkpoint \<in> set (new_events tied (snd (loop_body example_env tied)))"
    unfolding iff n d c using a b by simp
  have q3: "last (new_events tied (snd (loop_body example_env tied))) = Backend_write_checkpoint \<and>
      called (new_events tied (snd (loop_body example_env tied))) = [plotter, writer] \<and>
      checkpoints (new_events tied (snd (loop_body example_env tied))) = 1 \<and>
      steps (snd (loop_body example_env tied)) = 5"
    using mp[OF conjunct1[OF t] q2] unfolding d n by simp
  have q4: "Backend_write_checkpoint \<notin> set (new_events tied_at_5 (snd (loop_body example_env tied_at_5)))"
    unfolding iff5 n5 d5 c5 using b5 by simp
  have q5: "checkpoints (new_events tied_at_5 (snd (loop_body example_env tied_at_5))) = 0"
    unfolding cnt5 n5 d5 c5 using b5 by simp
  have q6: "fst (the G) = SimulationEnd"
    using g by simp
  have q7: "\<exists>r s'. run example_env 0 1 (Some 10) ready = Some (r, s') \<and>
      hd (new_events (snd (the G)) s') = Backend_write_checkpoint"
    using q1 g by simp
  show ?thesis
    unfolding G_def[symmetric]
    apply (intro conjI)
    apply (rule h a b n c q2 conjunct1[OF q3] conjunct1[OF conjunct2[OF q3]]
        conjunct1[OF conjunct2[OF conjunct2[OF q3]]] conjunct2[OF conjunct2[OF conjunct2[OF q3]]]
        h5 n5 c5 b5 q4 q5 p q6 q7)+
    done
qed

text \<open>
  C5, as the specification has it: the end-of-run signal gives a final checkpoint and a
  final report, every exception other than it and the user's interruption is logged as
  a failure, and the completion marker is logged in every case. An exception of the
  final checkpoint escapes with no report and without being logged as a failure; an
  exception before the guarded part, here of the backend's \<^verbatim>\<open>run_pre\<close>, escapes with
  neither the failure nor the completion marker logged.
\<close>

theorem run_termination_counterexample:
  "returned (run disk_full_env 0 1 (Some 10) ready) \<and>
   fst (the (run_guarded disk_full_env (snd (run_prologue disk_full_env 0 (Some 10) ready))))
     = SimulationEnd \<and>
   fst (the (run disk_full_env 0 1 (Some 10) ready)) = Inl (Exception ''IOError'') \<and>
   new_events (snd (the (run_guarded disk_full_env (snd (run_prologue disk_full_env 0 (Some 10) ready)))))
       (snd (the (run disk_full_env 0 1 (Some 10) ready)))
     = [Backend_write_checkpoint, Log_info ''goodbye''] \<and>
   returned (run broken_restart_env 0 1 (Some 10) ready) \<and>
   fst (the (run broken_restart_env 0 1 (Some 10) ready)) = Inl (Exception ''OSError'') \<and>
   trace (snd (the (run broken_restart_env 0 1 (Some 10) ready)))
     = [Log_info [], Log_info ''atooms simulation via %s backend'', Log_info [],
        Log_info ''atooms version: %s+%s (%s)'', Log_info ''simulation starts on: %s'',
        Log_info ''output path: %s'', Clear writer, Backend_run_pre False]"
  by code_simp

text \<open>
  C5, amended: when the part of \<^verbatim>\<open>run\<close> guarded by \<^verbatim>\<open>try\<close> (the initial
  notifications and the main loop) ends with an exception, \<^verbatim>\<open>run\<close> logs the
  completion marker last, and: on the end-of-run signal it asks for a final checkpoint
  and, once that has returned, makes the final report, ignores what the report raises
  and returns; on the user's interruption it returns, with no report; on any other
  exception it logs the failure and raises the exception again. The theorem also
  records what the source does when the final checkpoint raises: that exception
  escapes, after the completion marker and with no report.
\<close>

theorem run_termination:
  assumes "fst (run_prologue env t0 n s) = Inr ()"
    and "run_guarded env (snd (run_prologue env t0 n s)) = Some (e, s2)"
  shows "\<exists>r s'. run env t0 t1 n s = Some (r, s') \<and>
      last (trace s') = Log_info ''goodbye'' \<and>
      (e = SimulationEnd \<and> fst (write_checkpoint env s2) = Inr () \<longrightarrow>
         r = Inr () \<and>
         trace s' = trace (snd (report_end env t1 (snd (write_checkpoint env s2)))) @ [Log_info ''goodbye''] \<and>
         take 2 (new_events s2 s') = [Backend_write_checkpoint, Log_info ''simulation ended on: %s'']) \<and>
      (e = SimulationEnd \<and> fst (write_checkpoint env s2) \<noteq> Inr () \<longrightarrow>
         r = fst (write_checkpoint env s2) \<and>
         new_events s2 s' = [Backend_write_checkpoint, Log_info ''goodbye'']) \<and>
      (e = KeyboardInterrupt \<longrightarrow> r = Inr () \<and> new_events s2 s' = [Log_info ''goodbye'']) \<and>
      (e \<noteq> SimulationEnd \<and> e \<noteq> KeyboardInterrupt \<longrightarrow>
         r = Inl e \<and> new_events s2 s' = [Log_error ''simulation failed'', Log_info ''goodbye''])"
proof -
  define r where "r = fst (run_handlers env t1 e s2)"
  define s' where "s' = snd (run_handlers env t1 e s2)"
  have run: "run env t0 t1 n s = Some (r, s')"
    using run_unfold[OF assms] by (simp add: r_def s'_def)
  obtain es where es: "trace s' = trace s2 @ es" "last es = Log_info ''goodbye''" "es \<noteq> []"
    using run_handlers_frame[of env t1 e s2] unfolding s'_def by blast
  have la: "last (trace s') = Log_info ''goodbye''"
    using es by simp
  have a: "r = Inr () \<and>
         trace s' = trace (snd (report_end env t1 (snd (write_checkpoint env s2)))) @ [Log_info ''goodbye''] \<and>
         take 2 (new_events s2 s') = [Backend_write_checkpoint, Log_info ''simulation ended on: %s'']"
    if "e = SimulationEnd \<and> fst (write_checkpoint env s2) = Inr ()"
  proof -
    have e: "e = SimulationEnd" and ok: "fst (write_checkpoint env s2) = Inr ()"
      using that by simp_all
    note h = run_handlers_end[OF ok, of t1]
    obtain rs where rs: "trace s' = trace s2 @ Backend_write_checkpoint # Log_info ''simulation ended on: %s'' # rs @ [Log_info ''goodbye'']"
      using h unfolding s'_def e by blast
    have "new_events s2 s' = Backend_write_checkpoint # Log_info ''simulation ended on: %s'' # rs @ [Log_info ''goodbye'']"
      using rs by (rule new_events_append)
    then show ?thesis
      using h unfolding s'_def r_def e by simp
  qed
  have b: "r = fst (write_checkpoint env s2) \<and>
         new_events s2 s' = [Backend_write_checkpoint, Log_info ''goodbye'']"
    if "e = SimulationEnd \<and> fst (write_checkpoint env s2) \<noteq> Inr ()"
    using run_handlers_end_failed[of env s2 t1] that unfolding s'_def r_def
    by (simp add: new_events_def)
  have c: "r = Inr () \<and> new_events s2 s' = [Log_info ''goodbye'']" if "e = KeyboardInterrupt"
    using that unfolding s'_def r_def by (simp add: run_handlers_interrupt new_events_def)
  have d: "r = Inl e \<and> new_events s2 s' = [Log_error ''simulation failed'', Log_info ''goodbye'']"
    if "e \<noteq> SimulationEnd \<and> e \<noteq> KeyboardInterrupt"
    using that unfolding s'_def r_def by (simp add: run_handlers_failure new_events_def)
  show ?thesis
    using run la a b c d by blast
qed

theorem run_termination_witness:
  "fst (run_prologue example_env 0 (Some 10) ready) = Inr () \<and>
   fst (the (run_guarded example_env (snd (run_prologue example_env 0 (Some 10) ready)))) = SimulationEnd \<and>
   (\<exists>r s'. run example_env 0 1 (Some 10) ready = Some (r, s') \<and> r = Inr () \<and>
      last (trace s') = Log_info ''goodbye'') \<and>
   fst (the (run_guarded interrupted_env (snd (run_prologue interrupted_env 0 (Some 10) ready)))) = KeyboardInterrupt \<and>
   (\<exists>r s'. run interrupted_env 0 1 (Some 10) ready = Some (r, s') \<and> r = Inr () \<and>
      last (trace s') = Log_info ''goodbye'') \<and>
   fst (the (run_guarded crashing_env (snd (run_prologue crashing_env 0 (Some 10) ready))))
     = Exception ''RuntimeError'' \<and>
   (\<exists>r s'. run crashing_env 0 1 (Some 10) ready = Some (r, s') \<and>
      r = Inl (Exception ''RuntimeError'') \<and> last (trace s') = Log_info ''goodbye'')"
proof -
  define G1 where "G1 = run_guarded example_env (snd (run_prologue example_env 0 (Some 10) ready))"
  define G2 where "G2 = run_guarded interrupted_env (snd (run_prologue interrupted_env 0 (Some 10) ready))"
  define G3 where "G3 = run_guarded crashing_env (snd (run_prologue crashing_env 0 (Some 10) ready))"
  have p: "fst (run_prologue example_env 0 (Some 10) ready) = Inr ()"
    "fst (run_prologue interrupted_env 0 (Some 10) ready) = Inr ()"
    "fst (run_prologue crashing_env 0 (Some 10) ready) = Inr ()"
    by code_simp+
  have "case run_guarded example_env (snd (run_prologue example_env 0 (Some 10) ready)) of
          None \<Rightarrow> False | Some y \<Rightarrow> fst y = SimulationEnd"
    by code_simp
  then obtain a where g1: "G1 = Some (SimulationEnd, a)"
    unfolding G1_def[symmetric] by (cases G1) auto
  have "case run_guarded interrupted_env (snd (run_prologue interrupted_env 0 (Some 10) ready)) of
          None \<Rightarrow> False | Some y \<Rightarrow> fst y = KeyboardInterrupt"
    by code_simp
  then obtain b where g2: "G2 = Some (KeyboardInterrupt, b)"
    unfolding G2_def[symmetric] by (cases G2) auto
  have "case run_guarded crashing_env (snd (run_prologue crashing_env 0 (Some 10) ready)) of
          None \<Rightarrow> False | Some y \<Rightarrow> fst y = Exception ''RuntimeError''"
    by code_simp
  then obtain c where g3: "G3 = Some (Exception ''RuntimeError'', c)"
    unfolding G3_def[symmetric] by (cases G3) auto
  have w: "fst (write_checkpoint example_env a) = Inr ()"
    by (simp add: write_checkpoint_def external_def example_env_def)
  have "\<exists>r s'. run example_env 0 1 (Some 10) ready = Some (r, s') \<and> r = Inr () \<and>
      last (trace s') = Log_info ''goodbye''"
    using run_termination [OF p(1) g1[unfolded G1_def], of 1] w by blast
  moreover have "\<exists>r s'. run interrupted_env 0 1 (Some 10) ready = Some (r, s') \<and> r = Inr () \<and>
      last (trace s') = Log_info ''goodbye''"
    using run_termination [OF p(2) g2[unfolded G2_def], of 1] by blast
  moreover have "\<exists>r s'. run crashing_env 0 1 (Some 10) ready = Some (r, s') \<and>
      r = Inl (Exception ''RuntimeError'') \<and> last (trace s') = Log_info ''goodbye''"
    using run_termination [OF p(3) g3[unfolded G3_def], of 1] by blast
  ultimately show ?thesis
    unfolding G1_def[symmetric] G2_def[symmetric] G3_def[symmetric] using p(1) g1 g2 g3 by simp
qed

section \<open>Fresh and resumed runs\<close>

text \<open>
  C2, as the specification has it: when \<^verbatim>\<open>restart\<close> is false or the step count is
  zero, the counters are reset and every reset hook is called. The hooks are behind
  \<^verbatim>\<open>restart\<close> and the output path alone: on an instance with \<^verbatim>\<open>restart\<close> true and
  no step made yet, whose writer has a hook, no hook is called.
\<close>

theorem reset_hooks_counterexample:
  "restart restarted \<and> steps restarted = 0 \<and> output_path restarted = Some ''out/trajectory.xyz'' \<and>
   callback restarted = [writer] \<and>
   (case callback_clear example_env writer of None \<Rightarrow> False | Some hook \<Rightarrow> True) \<and>
   returned (run example_env 0 1 (Some 10) restarted) \<and>
   clears (trace (snd (the (run example_env 0 1 (Some 10) restarted)))) = []"
  by code_simp

text \<open>
  C2, amended: in a call of \<^verbatim>\<open>run\<close>, when \<^verbatim>\<open>restart\<close> is false or the step count is
  zero the step counts of the instance and of the backend are reset to 0; when
  \<^verbatim>\<open>restart\<close> is true or there is no output path no reset hook is called; when
  \<^verbatim>\<open>restart\<close> is false and there is an output path, the reset hook of every
  registered observer that has one is called, in the order of the registry, provided
  the run gets as far as its guarded part; and when \<^verbatim>\<open>restart\<close> is true and
  \<^verbatim>\<open>run_pre\<close> returns, the step count of the instance is the step count the backend
  reports.
\<close>

theorem run_restart_handling:
  assumes "run env t0 t1 n s = Some (r, s')"
  shows "(\<not> restart s \<or> steps s = 0 \<longrightarrow>
            steps (run_reset n s) = 0 \<and> backend_steps (backend (run_reset n s)) = 0) \<and>
         (\<not> restart s \<longrightarrow> steps (snd (run_prologue env t0 n s)) = 0) \<and>
         (restart s \<or> output_path s = None \<longrightarrow> clears (new_events s s') = []) \<and>
         (\<not> restart s \<and> output_path s \<noteq> None \<and> fst (run_prologue env t0 n s) = Inr () \<longrightarrow>
            clears (new_events s s') = [c \<leftarrow> callback s'. callback_clear env c \<noteq> None]) \<and>
         (restart s0 \<and> fst (run_pre env t0 s0) = Inr () \<longrightarrow>
            steps (snd (run_pre env t0 s0)) = backend_steps (backend (snd (run_pre env t0 s0))))"
proof -
  obtain ps where ps: "trace (snd (run_prologue env t0 n s)) = trace s @ ps"
      "prefix (clears ps) (expected_clears env (run_added n s))"
      "fst (run_prologue env t0 n s) = Inr () \<longrightarrow> clears ps = expected_clears env (run_added n s)"
      "callback (snd (run_prologue env t0 n s)) = callback (run_added n s)"
      "\<not> restart s \<longrightarrow> steps (snd (run_prologue env t0 n s)) = 0"
    using run_prologue_shape[of env t0 n s] by blast
  obtain es where es: "trace s' = trace (snd (run_prologue env t0 n s)) @ es" "clears es = []"
      "callback s' = callback (snd (run_prologue env t0 n s))"
    using run_frame[OF assms] by blast
  have ne: "new_events s s' = ps @ es"
    using ps(1) es(1) by (simp add: new_events_def)
  have cl: "clears (ps @ es) = clears ps"
    using es(2) by simp
  have fa: "restart (run_added n s) = restart s" "output_path (run_added n s) = output_path s"
    using run_added_fields[of n s] by simp_all
  have a: "steps (run_reset n s) = 0 \<and> backend_steps (backend (run_reset n s)) = 0"
    if "\<not> restart s \<or> steps s = 0"
    using that by (rule run_reset_fresh)
  have b: "clears (new_events s s') = []" if "restart s \<or> output_path s = None"
  proof -
    have "expected_clears env (run_added n s) = []"
      using that fa by (auto simp: expected_clears_def)
    then show ?thesis
      unfolding ne cl using ps(2) by simp
  qed
  have c: "clears (new_events s s') = [c \<leftarrow> callback s'. callback_clear env c \<noteq> None]"
    if "\<not> restart s \<and> output_path s \<noteq> None \<and> fst (run_prologue env t0 n s) = Inr ()"
  proof -
    have "expected_clears env (run_added n s)
        = [c \<leftarrow> callback (run_added n s). callback_clear env c \<noteq> None]"
      using that fa by (simp add: expected_clears_def)
    then show ?thesis
      unfolding ne cl using ps(3,4) es(3) that by simp
  qed
  have d: "steps (snd (run_pre env t0 s0)) = backend_steps (backend (snd (run_pre env t0 s0)))"
    if "restart s0 \<and> fst (run_pre env t0 s0) = Inr ()"
    using run_pre_shape[of env t0 s0] that by blast
  show ?thesis
    using a b c d ps(5) by blast
qed

theorem run_restart_handling_witness:
  "returned (run example_env 0 1 (Some 10) ready) \<and>
   returned (run example_env 0 1 (Some 10) restarted) \<and>
   steps (run_reset (Some 10) ready) = 0 \<and>
   backend_steps (backend (run_reset (Some 10) ready)) = 0 \<and>
   steps (snd (run_prologue example_env 0 (Some 10) ready)) = 0 \<and>
   clears (new_events ready (snd (the (run example_env 0 1 (Some 10) ready)))) = [writer] \<and>
   clears (new_events restarted (snd (the (run example_env 0 1 (Some 10) restarted)))) = [] \<and>
   fst (run_pre example_env 0 resumed) = Inr () \<and>
   steps (snd (run_pre example_env 0 resumed)) = backend_steps (backend (snd (run_pre example_env 0 resumed)))"
proof -
  have r1: "returned (run example_env 0 1 (Some 10) ready)"
    and r2: "returned (run example_env 0 1 (Some 10) restarted)"
    by code_simp+
  note t1 = run_restart_handling [OF returned_Some [OF r1], of resumed]
  note t2 = run_restart_handling [OF returned_Some [OF r2], of resumed]
  have f: "\<not> restart ready" "output_path ready \<noteq> None" "restart restarted" "restart resumed"
    "fst (run_prologue example_env 0 (Some 10) ready) = Inr ()"
    "fst (run_pre example_env 0 resumed) = Inr ()"
    by code_simp+
  have cb: "callback (snd (the (run example_env 0 1 (Some 10) ready))) = [writer, target_steps]"
    by code_simp
  have hk: "[c \<leftarrow> [writer, target_steps]. callback_clear example_env c \<noteq> None] = [writer]"
    by (simp add: example_env_def writer_def target_steps_def)
  show ?thesis
    using r1 r2 f t1 t2 hk unfolding cb by simp
qed

text \<open>
  C9: a call \<^verbatim>\<open>run(steps=N)\<close> with \<^verbatim>\<open>restart\<close> true and a positive step count
  leaves \<^verbatim>\<open>max_steps\<close> as it was, whatever \<open>N\<close> is and however the call ends.
\<close>

theorem resume_keeps_max_steps:
  assumes "restart s" and "0 < steps s" and "run env t0 t1 n s = Some (r, s')"
  shows "max_steps s' = max_steps s"
proof -
  have "run_reset n s = s"
    using assms(1,2) by (simp add: run_reset_resumed)
  then have "max_steps (snd (run_prologue env t0 n s)) = max_steps s"
    using run_prologue_shape[of env t0 n s] by auto
  then show ?thesis
    using run_frame[OF assms(3)] by auto
qed

theorem resume_keeps_max_steps_witness:
  "restart resumed \<and> 0 < steps resumed \<and> max_steps resumed = 10 \<and>
   returned (run example_env 0 1 (Some 20) resumed) \<and>
   max_steps (snd (the (run example_env 0 1 (Some 20) resumed))) = 10"
proof -
  have r: "returned (run example_env 0 1 (Some 20) resumed)"
    by code_simp
  have f: "restart resumed" "0 < steps resumed" "max_steps resumed = 10"
    by code_simp+
  show ?thesis
    using r f resume_keeps_max_steps [OF f(1,2) returned_Some [OF r]] by simp
qed

section \<open>The scenarios of the specification\<close>

text \<open>
  Target step 10, a checkpoint every 5 steps and one observer every 3 steps: the backend
  advances to 3, 5, 6, 9 and 10, the observer is called before the loop and at 3, 6
  and 9, the step targeter before the loop and at 10, where it ends the run; the
  checkpoints are the one at step 5 and the final one at step 10.
\<close>

lemma scenario_target_10:
  "returned (run example_env 0 1 (Some 10) ready) \<and>
   fst (the (run example_env 0 1 (Some 10) ready)) = Inr () \<and>
   steps (snd (the (run example_env 0 1 (Some 10) ready))) = 10 \<and>
   advances (trace (snd (the (run example_env 0 1 (Some 10) ready)))) = [3, 5, 6, 9, 10] \<and>
   called (trace (snd (the (run example_env 0 1 (Some 10) ready))))
     = [target_steps, writer, writer, writer, writer, target_steps] \<and>
   checkpoints (trace (snd (the (run example_env 0 1 (Some 10) ready)))) = 2 \<and>
   clears (trace (snd (the (run example_env 0 1 (Some 10) ready)))) = [writer]"
  by code_simp

text \<open>
  A restart with a backend that reports step 7 and a target of 10 steps: the run
  resumes at step 7 and no reset hook is called.
\<close>

lemma scenario_restart_at_7:
  "returned (run restoring_env 0 1 None restarted) \<and>
   fst (the (run restoring_env 0 1 None restarted)) = Inr () \<and>
   initial_steps (snd (the (run restoring_env 0 1 None restarted))) = 7 \<and>
   advances (trace (snd (the (run restoring_env 0 1 None restarted)))) = [9, 10] \<and>
   clears (trace (snd (the (run restoring_env 0 1 None restarted)))) = []"
  by code_simp

text \<open>
  The user interrupts the advance from step 3 to step 5: the run returns, without a
  final report and without a checkpoint, and the completion marker is logged.
\<close>

lemma scenario_interrupted:
  "returned (run interrupted_env 0 1 (Some 10) ready) \<and>
   fst (the (run interrupted_env 0 1 (Some 10) ready)) = Inr () \<and>
   advances (trace (snd (the (run interrupted_env 0 1 (Some 10) ready)))) = [3, 5] \<and>
   checkpoints (trace (snd (the (run interrupted_env 0 1 (Some 10) ready)))) = 0 \<and>
   last (trace (snd (the (run interrupted_env 0 1 (Some 10) ready)))) = Log_info ''goodbye'' \<and>
   Log_info ''simulation ended on: %s''
     \<notin> set (trace (snd (the (run interrupted_env 0 1 (Some 10) ready))))"
  by code_simp

end
